theory Spec2Isabelle
  imports Complex_Main "HOL-Library.Word"
begin

section \<open>The bitonic sort sample: step sequencer and swap-partner predictor\<close>

text \<open>
  The sample keeps its state in a GUI-bound \<open>settings\<close> object, in a few variables of the
  enclosing closure (\<open>highestBlockHeight\<close>, \<open>elements\<close>) and in GPU buffers. The model
  below threads all of it through one record.

  JavaScript numbers are modelled as exact reals. Every value the sequencer computes is a
  dyadic rational of small magnitude (sizes are halved or doubled, counters are incremented),
  for which IEEE double arithmetic is exact. A result that is not a finite number in
  JavaScript (a division by zero, \<open>NaN\<close>) is the value \<open>None\<close> of an option type.
  \<open>Math.log2\<close> is the real logarithm to base 2.
  A controller's \<open>setValue\<close> stores the value in the field of \<open>settings\<close> it is bound to,
  at once; the code reads the fields back on this assumption.
  The fields of \<open>settings\<close> that only describe the display (grid dimensions, display mode,
  sort speed, the "x of y" string) are left out. A frame is modelled as one atomic
  transition of an active page: the early return for an inactive page and the interleaving
  of GUI events with the awaited buffer mappings are not part of the model.
\<close>

subsection \<open>Data\<close>

datatype StepType = NONE | FLIP_LOCAL | DISPERSE_LOCAL | FLIP_GLOBAL | DISPERSE_GLOBAL

record session =
  Total_Elements :: real
  Workgroup_Size :: real
  Size_Limit :: real
  Workgroups_Per_Step :: "real option"
  Hovered_Cell :: real
  Swapped_Cell :: "real option"
  Step_Index :: real
  Total_Steps :: "real option"
  Prev_Step :: StepType
  Next_Step :: StepType
  Prev_Swap_Span :: real
  Next_Swap_Span :: real
  executeStep :: bool
  Total_Swaps :: real
  highestBlockHeight :: real
  elements :: "32 word list"
  elementsOutputBuffer :: "32 word list"
  elementsStagingBuffer :: "32 word list"
  atomicSwapsOutputBuffer :: "32 word"
  atomicSwapsStagingBuffer :: "32 word"

text \<open>
  The compute shader is an external collaborator: given the state at dispatch time (the
  uniforms, the input elements, the pipeline's workgroup size) it produces the new contents
  of the output buffer and of the atomic swap counter.
\<close>

type_synonym executor = "session \<Rightarrow> 32 word list \<times> 32 word"

subsection \<open>Number helpers\<close>

definition jsDivide :: "real \<Rightarrow> real \<Rightarrow> real option" where
  "jsDivide x y = (if y = 0 then None else Some (x / y))"

definition jsTrunc :: "real \<Rightarrow> int" where
  "jsTrunc q = (if q < 0 then \<lceil>q\<rceil> else \<lfloor>q\<rfloor>)"

text \<open>The operator \<open>%\<close>: the remainder has the sign of the dividend, and \<open>x % 0\<close> is \<open>NaN\<close>.\<close>

definition jsRemainder :: "real \<Rightarrow> real \<Rightarrow> real option" where
  "jsRemainder x y = (if y = 0 then None else Some (x - y * of_int (jsTrunc (x / y))))"

definition jsCeil :: "real \<Rightarrow> real" where
  "jsCeil x = of_int \<lceil>x\<rceil>"

definition jsFloor :: "real \<Rightarrow> real" where
  "jsFloor x = of_int \<lfloor>x\<rfloor>"

subsection \<open>Session set-up\<close>

definition getNumSteps :: "real \<Rightarrow> real option" where
  "getNumSteps numElements =
     (if numElements \<le> 0 then None
      else (let n = log 2 numElements in Some ((n * (n + 1)) / 2)))"

text \<open>The two option lists offered by the GUI, each built by a halving loop.\<close>

function totalElementOptions :: "real \<Rightarrow> real list" where
  "totalElementOptions i = (if i \<ge> 4 then i # totalElementOptions (i / 2) else [])"
  by pat_completeness auto
termination
proof (relation "measure (\<lambda>i. nat \<lceil>i\<rceil>)")
  show "wf (measure (\<lambda>i::real. nat \<lceil>i\<rceil>))" by simp
next
  fix i :: real
  assume "4 \<le> i"
  then have "\<lceil>i / 2\<rceil> < \<lceil>i\<rceil>" by linarith
  moreover from \<open>4 \<le> i\<close> have "0 < \<lceil>i\<rceil>" by linarith
  ultimately show "(i / 2, i) \<in> measure (\<lambda>i. nat \<lceil>i\<rceil>)" by simp
qed

declare totalElementOptions.simps [simp del]

function sizeLimitOptions :: "real \<Rightarrow> real list" where
  "sizeLimitOptions i = (if i \<ge> 2 then i # sizeLimitOptions (i / 2) else [])"
  by pat_completeness auto
termination
proof (relation "measure (\<lambda>i. nat \<lceil>i\<rceil>)")
  show "wf (measure (\<lambda>i::real. nat \<lceil>i\<rceil>))" by simp
next
  fix i :: real
  assume "2 \<le> i"
  then have "\<lceil>i / 2\<rceil> < \<lceil>i\<rceil>" by linarith
  moreover from \<open>2 \<le> i\<close> have "0 < \<lceil>i\<rceil>" by linarith
  ultimately show "(i / 2, i) \<in> measure (\<lambda>i. nat \<lceil>i\<rceil>)" by simp
qed

declare sizeLimitOptions.simps [simp del]

text \<open>
  \<open>resetExecutionInformation\<close> restarts the sort for the element count and size limit found
  in \<open>settings\<close>. Its compute pass with the \<open>atomicToZero\<close> pipeline clears the swap counter
  on the GPU.

  \<open>randomizeElementArray\<close>: a Fisher-Yates shuffle. \<open>rnd k\<close> is the result of the
  \<open>k\<close>-th call of \<open>Math.random\<close>, a number in \<open>[0, 1)\<close>, so that \<open>randomIndex\<close> is in range.
\<close>

fun shuffleFrom :: "nat \<Rightarrow> (nat \<Rightarrow> real) \<Rightarrow> 'a list \<Rightarrow> 'a list" where
  "shuffleFrom 0 rnd els = els"
| "shuffleFrom (Suc c) rnd els =
     (let randomIndex = nat \<lfloor>rnd 0 * real (Suc c)\<rfloor>
      in shuffleFrom c (\<lambda>k. rnd (Suc k)) (els[c := els ! randomIndex, randomIndex := els ! c]))"

definition randomizeElementArray :: "(nat \<Rightarrow> real) \<Rightarrow> session \<Rightarrow> session" where
  "randomizeElementArray rnd s = s\<lparr>elements := shuffleFrom (length (elements s)) rnd (elements s)\<rparr>"

definition identityElements :: "real \<Rightarrow> 32 word list" where
  "identityElements n = map of_nat [0..<nat \<lfloor>n\<rfloor>]"

definition resetExecutionInformation :: "session \<Rightarrow> session" where
  "resetExecutionInformation s =
     (let s1 = s\<lparr>Workgroup_Size := min (Total_Elements s / 2) (Size_Limit s)\<rparr>;
          workgroupsPerStep = jsDivide (Total_Elements s1 - 1) (Size_Limit s1 * 2);
          s2 = s1\<lparr>Workgroups_Per_Step := map_option jsCeil workgroupsPerStep\<rparr>;
          s3 = s2\<lparr>Step_Index := 0, Total_Steps := getNumSteps (Total_Elements s2)\<rparr>;
          s4 = s3\<lparr>Prev_Step := NONE, Next_Step := FLIP_LOCAL\<rparr>;
          s5 = s4\<lparr>Prev_Swap_Span := 0, Next_Swap_Span := 2\<rparr>;
          s6 = s5\<lparr>atomicSwapsOutputBuffer := 0, Total_Swaps := 0\<rparr>
      in s6\<lparr>highestBlockHeight := 2\<rparr>)"

definition resizeElementArray :: "(nat \<Rightarrow> real) \<Rightarrow> session \<Rightarrow> session" where
  "resizeElementArray rnd s =
     (let s1 = s\<lparr>elements := identityElements (Total_Elements s)\<rparr>;
          s2 = resetExecutionInformation s1;
          s3 = randomizeElementArray rnd s2
      in s3\<lparr>highestBlockHeight := 2\<rparr>)"

text \<open>The \<open>onChange\<close> handler of the 'Size Limit' controller.\<close>

definition sizeLimitOnChange :: "session \<Rightarrow> session" where
  "sizeLimitOnChange s =
     (let constraint = min (Total_Elements s / 2) (Size_Limit s);
          workgroupsPerStep = jsDivide (Total_Elements s - 1) (Size_Limit s * 2);
          s1 = s\<lparr>Workgroup_Size := constraint\<rparr>
      in s1\<lparr>Workgroups_Per_Step := map_option jsCeil workgroupsPerStep\<rparr>)"

text \<open>
  The GUI stores the chosen option in \<open>settings\<close> and then calls the handler.
\<close>

definition selectTotalElements :: "(nat \<Rightarrow> real) \<Rightarrow> real \<Rightarrow> session \<Rightarrow> session" where
  "selectTotalElements rnd n s = resizeElementArray rnd (s\<lparr>Total_Elements := n\<rparr>)"

definition selectSizeLimit :: "real \<Rightarrow> session \<Rightarrow> session" where
  "selectSizeLimit l s = sizeLimitOnChange (s\<lparr>Size_Limit := l\<rparr>)"

text \<open>
  The state at page load, for a device whose \<open>maxComputeWorkgroupSizeX\<close> is
  \<open>maxInvocationsX\<close>: the \<open>settings\<close> literal, the identity element array, zero-filled
  buffers, and the first shuffle.
\<close>

definition initialSession :: "(nat \<Rightarrow> real) \<Rightarrow> real \<Rightarrow> session" where
  "initialSession rnd maxInvocationsX =
     (let maxElements = maxInvocationsX * 32
      in randomizeElementArray rnd
        \<lparr>Total_Elements = maxElements,
         Workgroup_Size = maxInvocationsX,
         Size_Limit = maxInvocationsX,
         Workgroups_Per_Step = jsDivide maxElements (maxInvocationsX * 2),
         Hovered_Cell = 0,
         Swapped_Cell = Some 1,
         Step_Index = 0,
         Total_Steps = getNumSteps maxElements,
         Prev_Step = NONE,
         Next_Step = FLIP_LOCAL,
         Prev_Swap_Span = 0,
         Next_Swap_Span = 2,
         executeStep = False,
         Total_Swaps = 0,
         highestBlockHeight = 2,
         elements = identityElements maxElements,
         elementsOutputBuffer = replicate (nat \<lfloor>maxElements\<rfloor>) 0,
         elementsStagingBuffer = replicate (nat \<lfloor>maxElements\<rfloor>) 0,
         atomicSwapsOutputBuffer = 0,
         atomicSwapsStagingBuffer = 0\<rparr>)"

subsection \<open>The swap-partner predictor\<close>

text \<open>
  \<open>setSwappedCell\<close> switches on 'Next Step'. The case list names \<open>FLIP_LOCAL\<close>,
  \<open>FLIP_GLOBAL\<close>, \<open>DISPERSE_LOCAL\<close> and \<open>NONE\<close>; \<open>NONE\<close> falls through to the default
  branch, which every other value takes as well.
\<close>

definition flipPartner :: "real \<Rightarrow> real \<Rightarrow> real option" where
  "flipPartner blockHeight hovered =
     (let p2 = jsFloor (hovered / blockHeight) + 1
      in case jsRemainder hovered blockHeight of
           None \<Rightarrow> None
         | Some p3 \<Rightarrow> Some (blockHeight * p2 - p3 - 1))"

definition dispersePartner :: "real \<Rightarrow> real \<Rightarrow> real option" where
  "dispersePartner blockHeight hovered =
     (let halfHeight = blockHeight / 2
      in Some (if (case jsRemainder hovered blockHeight of
                     None \<Rightarrow> False
                   | Some r \<Rightarrow> r < halfHeight)
               then hovered + halfHeight
               else hovered - halfHeight))"

fun swappedIndex :: "StepType \<Rightarrow> real \<Rightarrow> real \<Rightarrow> real option" where
  "swappedIndex FLIP_LOCAL swapSpan hovered = flipPartner swapSpan hovered"
| "swappedIndex FLIP_GLOBAL swapSpan hovered = flipPartner swapSpan hovered"
| "swappedIndex DISPERSE_LOCAL swapSpan hovered = dispersePartner swapSpan hovered"
| "swappedIndex NONE swapSpan hovered = Some hovered"
| "swappedIndex DISPERSE_GLOBAL swapSpan hovered = Some hovered"

definition setSwappedCell :: "session \<Rightarrow> session" where
  "setSwappedCell s =
     s\<lparr>Swapped_Cell := swappedIndex (Next_Step s) (Next_Swap_Span s) (Hovered_Cell s)\<rparr>"

subsection \<open>One animation frame\<close>

text \<open>
  The body of \<open>frame\<close> in three parts. When a step is due and the sort is not over, the
  compute pass is encoded for the step that 'Next Step' and 'Next Swap Span' describe, the
  settings advance to the following step, and the output buffers are copied to the staging
  buffers. Then, whenever a step was requested, the staging buffers are read back.
\<close>

definition advanceSettings :: "session \<Rightarrow> session" where
  "advanceSettings s =
     (let s1 = s\<lparr>Step_Index := Step_Index s + 1\<rparr>;
          s2 = s1\<lparr>Prev_Step := Next_Step s1\<rparr>;
          s3 = s2\<lparr>Prev_Swap_Span := Next_Swap_Span s2\<rparr>;
          s4 = s3\<lparr>Next_Swap_Span := Next_Swap_Span s3 / 2\<rparr>
      in if Next_Swap_Span s4 = 1 then
           (let s5 = s4\<lparr>highestBlockHeight := highestBlockHeight s4 * 2\<rparr>
            in if highestBlockHeight s5 = Total_Elements s5 * 2 then
                 s5\<lparr>Next_Step := NONE, Next_Swap_Span := 0\<rparr>
               else if highestBlockHeight s5 > Workgroup_Size s5 * 2 then
                 s5\<lparr>Next_Step := FLIP_GLOBAL, Next_Swap_Span := highestBlockHeight s5\<rparr>
               else
                 s5\<lparr>Next_Step := FLIP_LOCAL, Next_Swap_Span := highestBlockHeight s5\<rparr>)
         else
           (if Next_Swap_Span s4 > Workgroup_Size s4 * 2
            then s4\<lparr>Next_Step := DISPERSE_GLOBAL\<rparr>
            else s4\<lparr>Next_Step := DISPERSE_LOCAL\<rparr>))"

definition dispatchStep :: "executor \<Rightarrow> session \<Rightarrow> session" where
  "dispatchStep gpu s =
     (let (out, swaps) = gpu s;
          s1 = s\<lparr>elementsOutputBuffer := out, atomicSwapsOutputBuffer := swaps\<rparr>;
          s2 = advanceSettings s1
      in s2\<lparr>elementsStagingBuffer := elementsOutputBuffer s2,
            atomicSwapsStagingBuffer := atomicSwapsOutputBuffer s2\<rparr>)"

definition readBack :: "session \<Rightarrow> session" where
  "readBack s =
     (let elementsOutput = take (nat \<lfloor>Total_Elements s\<rfloor>) (elementsStagingBuffer s);
          s1 = s\<lparr>Total_Swaps := real (unat (atomicSwapsStagingBuffer s))\<rparr>;
          s2 = s1\<lparr>elements := elementsOutput\<rparr>
      in setSwappedCell s2)"

definition frame :: "executor \<Rightarrow> session \<Rightarrow> session" where
  "frame gpu s =
     (let s1 = (if executeStep s \<and> highestBlockHeight s \<noteq> Total_Elements s * 2
                then dispatchStep gpu s else s);
          s2 = (if executeStep s1 then readBack s1 else s1)
      in s2\<lparr>executeStep := False\<rparr>)"

text \<open>
  The handler of 'Execute Sort Step' requests a step; the next frame carries it out.
  \<open>advance\<close> is that pair, one manual step of the sort.
\<close>

definition executeSortStep :: "session \<Rightarrow> session" where
  "executeSortStep s = s\<lparr>executeStep := True\<rparr>"

definition advance :: "executor \<Rightarrow> session \<Rightarrow> session" where
  "advance gpu s = frame gpu (executeSortStep s)"

subsection \<open>A concrete page\<close>

text \<open>
  A device with \<open>maxComputeWorkgroupSizeX = 8\<close> offers 256, 128, ..., 4 elements and size
  limits 8, 4, 2. \<open>demoSession n l\<close> is the state after the user has picked the size limit
  \<open>l\<close> and then \<open>n\<close> elements, with a random source that always returns 0 and an
  executor that leaves the buffers alone.
\<close>

definition noRandom :: "nat \<Rightarrow> real" where
  "noRandom k = 0"

definition idleExecutor :: executor where
  "idleExecutor s = (elementsOutputBuffer s, atomicSwapsOutputBuffer s)"

definition demoSession :: "real \<Rightarrow> real \<Rightarrow> session" where
  "demoSession n l = selectTotalElements noRandom n (selectSizeLimit l (initialSession noRandom 8))"

subsection \<open>Describing a run of the sort\<close>

text \<open>
  The predicates of this subsection are used in proofs only. While the sort runs, the session
  is in merge cycle \<open>k\<close> (the block height is \<open>2 ^ k\<close>) and the next step has swap span
  \<open>2 ^ j\<close>; the kind of that step is the one the sequencer chose for it.
\<close>

definition stepClass :: "nat \<Rightarrow> nat \<Rightarrow> nat \<Rightarrow> StepType" where
  "stepClass w k j =
     (if j = k then (if w + 1 < k then FLIP_GLOBAL else FLIP_LOCAL)
      else (if w + 1 < j then DISPERSE_GLOBAL else DISPERSE_LOCAL))"

definition inCycle :: "nat \<Rightarrow> nat \<Rightarrow> nat \<Rightarrow> nat \<Rightarrow> session \<Rightarrow> bool" where
  "inCycle n w k j s \<longleftrightarrow>
     Total_Elements s = 2 ^ n \<and> Workgroup_Size s = 2 ^ w \<and>
     highestBlockHeight s = 2 ^ k \<and> Next_Swap_Span s = 2 ^ j \<and>
     Next_Step s = stepClass w k j"

definition sortOver :: "nat \<Rightarrow> nat \<Rightarrow> session \<Rightarrow> bool" where
  "sortOver n w s \<longleftrightarrow>
     Total_Elements s = 2 ^ n \<and> Workgroup_Size s = 2 ^ w \<and>
     highestBlockHeight s = 2 ^ Suc n \<and> Next_Swap_Span s = 0 \<and> Next_Step s = NONE"

text \<open>The number of steps still to run from cycle \<open>k\<close>, span \<open>2 ^ j\<close>.\<close>

definition stepsLeft :: "nat \<Rightarrow> nat \<Rightarrow> nat \<Rightarrow> nat" where
  "stepsLeft n k j = j + (\<Sum>i = Suc k..n. i)"

definition progress :: "nat \<Rightarrow> nat \<Rightarrow> nat \<Rightarrow> session \<Rightarrow> bool" where
  "progress n w r s \<longleftrightarrow>
     (r = 0 \<and> sortOver n w s) \<or>
     (\<exists>k j. 1 \<le> j \<and> j \<le> k \<and> k \<le> n \<and> inCycle n w k j s \<and> r = stepsLeft n k j)"

section \<open>Properties of the swap-partner predictor\<close>

text \<open>
  On natural numbers the JavaScript quotient, floor and remainder are \<open>div\<close> and \<open>mod\<close>.
\<close>

lemma jsRemainder_nat: "0 < h \<Longrightarrow> jsRemainder (real i) (real h) = Some (real (i mod h))"
proof -
  assume h: "0 < h"
  have q: "\<lfloor>real i / real h\<rfloor> = int (i div h)"
    by (simp add: floor_divide_of_nat_eq)
  have "\<not> real i / real h < 0" by (simp add: not_less)
  then have "jsTrunc (real i / real h) = int (i div h)"
    using q by (simp add: jsTrunc_def)
  moreover have "real i - real h * real (i div h) = real (i mod h)"
    by (metis add.commute add_diff_cancel_left' mult.commute of_nat_add of_nat_mult div_mult_mod_eq)
  ultimately show ?thesis using h by (simp add: jsRemainder_def)
qed

lemma jsFloor_nat: "jsFloor (real i / real h) = real (i div h)"
  by (simp add: jsFloor_def floor_divide_of_nat_eq)

lemma flipPartner_nat:
  assumes "0 < h"
  shows "flipPartner (real h) (real i) = Some (real h * (real (i div h) + 1) - real (i mod h) - 1)"
  using assms by (simp add: flipPartner_def jsRemainder_nat jsFloor_nat)

lemma flip_mirror:
  assumes "0 < h"
  shows "real h * (real (i div h) + 1) - real (i mod h) - 1 = real (h * (i div h) + (h - 1 - i mod h))"
proof -
  have "i mod h < h" using assms by simp
  then have "real (h - 1 - i mod h) = real h - 1 - real (i mod h)"
    by (simp add: of_nat_diff)
  then show ?thesis by (simp add: algebra_simps)
qed

lemma dispersePartner_nat:
  assumes "0 < h"
  shows "dispersePartner (real h) (real i) =
     Some (if real (i mod h) < real h / 2 then real i + real h / 2 else real i - real h / 2)"
  using assms by (simp add: dispersePartner_def jsRemainder_nat)

lemma dispersePartner_even:
  assumes "0 < m"
  shows "dispersePartner (real (2 * m)) (real i) =
     Some (real (if i mod (2 * m) < m then i + m else i - m))"
proof -
  have ge: "\<not> i mod (2 * m) < m \<Longrightarrow> m \<le> i"
    by (meson le_trans mod_less_eq_dividend not_less)
  have "0 < 2 * m" using assms by simp
  from dispersePartner_nat [OF this, of i] show ?thesis
    using ge by (auto simp: of_nat_diff)
qed

text \<open>Each rule undoes itself.\<close>

lemma flip_twice:
  assumes "0 < h"
  shows "Option.bind (flipPartner (real h) (real i)) (flipPartner (real h)) = Some (real i)"
proof -
  define j where "j = h * (i div h) + (h - 1 - i mod h)"
  have r: "i mod h < h" using assms by simp
  then have lt: "h - 1 - i mod h < h" using assms by linarith
  have jd: "j div h = i div h" using lt assms by (simp add: j_def)
  have jm: "j mod h = h - 1 - i mod h" using lt by (simp add: j_def)
  have 1: "flipPartner (real h) (real i) = Some (real j)"
    by (simp add: flipPartner_nat [OF assms] flip_mirror [OF assms] j_def)
  have "h - 1 - (h - 1 - i mod h) = i mod h" using r by linarith
  then have "h * (j div h) + (h - 1 - j mod h) = i"
    by (simp add: jd jm)
  then have 2: "flipPartner (real h) (real j) = Some (real i)"
    by (simp add: flipPartner_nat [OF assms] flip_mirror [OF assms])
  show ?thesis by (simp add: 1 2)
qed

lemma disperse_twice_even:
  assumes "0 < m"
  shows "Option.bind (dispersePartner (real (2 * m)) (real i)) (dispersePartner (real (2 * m))) = Some (real i)"
proof (cases "i mod (2 * m) < m")
  case True
  have "(i + m) mod (2 * m) = (i mod (2 * m) + m) mod (2 * m)"
    by (simp add: mod_add_left_eq)
  also have "\<dots> = i mod (2 * m) + m"
    using True by (intro mod_less) linarith
  finally have "(i + m) mod (2 * m) = i mod (2 * m) + m" .
  then have "\<not> (i + m) mod (2 * m) < m" by simp
  then have 2: "dispersePartner (real (2 * m)) (real (i + m)) = Some (real i)"
    by (simp only: dispersePartner_even [OF assms] if_False add_diff_cancel_right')
  have 1: "dispersePartner (real (2 * m)) (real i) = Some (real (i + m))"
    using True by (simp only: dispersePartner_even [OF assms] if_True)
  show ?thesis by (simp only: 1 2 Option.bind.simps)
next
  case False
  then have ge: "m \<le> i" by (meson le_trans mod_less_eq_dividend not_less)
  have lt: "i mod (2 * m) < 2 * m" using assms by simp
  have "i = 2 * m * (i div (2 * m)) + i mod (2 * m)" by simp
  then have "i - m = 2 * m * (i div (2 * m)) + (i mod (2 * m) - m)"
    using False by linarith
  then have "(i - m) mod (2 * m) = (2 * m * (i div (2 * m)) + (i mod (2 * m) - m)) mod (2 * m)"
    by simp
  also have "\<dots> = (i mod (2 * m) - m) mod (2 * m)"
    by (rule mod_mult_self4)
  also have "\<dots> = i mod (2 * m) - m"
    using lt by (intro mod_less) linarith
  finally have "(i - m) mod (2 * m) = i mod (2 * m) - m" .
  then have "(i - m) mod (2 * m) < m" using lt False by linarith
  moreover have "i - m + m = i" using ge by simp
  ultimately have 2: "dispersePartner (real (2 * m)) (real (i - m)) = Some (real i)"
    by (simp only: dispersePartner_even [OF assms] if_True)
  have 1: "dispersePartner (real (2 * m)) (real i) = Some (real (i - m))"
    using False by (simp only: dispersePartner_even [OF assms] if_False)
  show ?thesis by (simp only: 1 2 Option.bind.simps)
qed

lemma disperse_twice_one:
  "Option.bind (dispersePartner 1 (real i)) (dispersePartner 1) = Some (real i)"
proof -
  have a: "jsRemainder (real i) 1 = Some 0"
    by (simp add: jsRemainder_def jsTrunc_def)
  have f: "\<lfloor>real i + 1 / 2\<rfloor> = int i" by linarith
  have "\<not> real i + 1 / 2 < 0" by (simp add: not_less add_nonneg_nonneg)
  then have b: "jsRemainder (real i + 1 / 2) 1 = Some (1 / 2)"
    using f by (simp add: jsRemainder_def jsTrunc_def)
  have 1: "dispersePartner 1 (real i) = Some (real i + 1 / 2)"
    by (simp add: dispersePartner_def a)
  have 2: "dispersePartner 1 (real i + 1 / 2) = Some (real i)"
    by (simp add: dispersePartner_def b)
  show ?thesis by (simp add: 1 2)
qed

subsection \<open>The flip rule and the involution\<close>

lemma swappedIndex_eta:
  "swappedIndex FLIP_LOCAL h = flipPartner h"
  "swappedIndex FLIP_GLOBAL h = flipPartner h"
  "swappedIndex DISPERSE_LOCAL h = dispersePartner h"
  "swappedIndex NONE h = Some"
  "swappedIndex DISPERSE_GLOBAL h = Some"
  by (rule ext, simp)+

lemma of_nat_two_power: "real ((2::nat) ^ k) = 2 ^ k"
  by simp

text \<open>
  Claim C8. For every index \<open>i\<close> and every span \<open>h = 2 ^ k\<close>, the predictor returns, for
  \<open>FLIP_LOCAL\<close> and for \<open>FLIP_GLOBAL\<close>, the number \<open>h * (floor (i / h) + 1) - (i mod h) - 1\<close>,
  where the quotient and the remainder are those of the natural numbers; this is the
  position \<open>h - 1 - i mod h\<close> of the block of size \<open>h\<close> that holds \<open>i\<close>, the mirror of \<open>i\<close>
  in its block. For span 4 and \<open>i = 1\<close> it is 2.
\<close>

theorem flip_partner:
  "swappedIndex FLIP_LOCAL (2 ^ k) (real i)
     = Some (2 ^ k * (real (i div 2 ^ k) + 1) - real (i mod 2 ^ k) - 1) \<and>
   swappedIndex FLIP_GLOBAL (2 ^ k) (real i)
     = Some (2 ^ k * (real (i div 2 ^ k) + 1) - real (i mod 2 ^ k) - 1) \<and>
   2 ^ k * (real (i div 2 ^ k) + 1) - real (i mod 2 ^ k) - 1
     = real (2 ^ k * (i div 2 ^ k) + (2 ^ k - 1 - i mod 2 ^ k)) \<and>
   swappedIndex FLIP_LOCAL 4 1 = Some 2"
proof -
  have pos: "0 < (2::nat) ^ k" by simp
  have a: "flipPartner (2 ^ k) (real i)
      = Some (2 ^ k * (real (i div 2 ^ k) + 1) - real (i mod 2 ^ k) - 1)"
    using flipPartner_nat [OF pos, of i] by (simp only: of_nat_two_power)
  have b: "2 ^ k * (real (i div 2 ^ k) + 1) - real (i mod 2 ^ k) - 1
      = real (2 ^ k * (i div 2 ^ k) + (2 ^ k - 1 - i mod 2 ^ k))"
    using flip_mirror [OF pos, of i] by (simp only: of_nat_two_power)
  have c: "swappedIndex FLIP_LOCAL 4 1 = Some 2"
    by (simp add: flipPartner_def jsRemainder_def jsFloor_def jsTrunc_def)
  from a b c show ?thesis by (simp only: swappedIndex.simps simp_thms)
qed

text \<open>
  Claim C5. For every index \<open>i\<close>, every phase and every span \<open>2 ^ k\<close>, and for the terminal
  pair of phase \<open>NONE\<close> and span 0, the predictor applied to its own result gives \<open>i\<close> back.
\<close>

theorem partner_involution:
  "Option.bind (swappedIndex p (2 ^ k) (real i)) (swappedIndex p (2 ^ k)) = Some (real i) \<and>
   Option.bind (swappedIndex NONE 0 (real i)) (swappedIndex NONE 0) = Some (real i)"
proof -
  have pos: "0 < (2::nat) ^ k" by simp
  have flip: "Option.bind (flipPartner (2 ^ k) (real i)) (flipPartner (2 ^ k)) = Some (real i)"
    using flip_twice [OF pos, of i] by (simp only: of_nat_two_power)
  have disperse:
    "Option.bind (dispersePartner (2 ^ k) (real i)) (dispersePartner (2 ^ k)) = Some (real i)"
  proof (cases k)
    case 0
    then show ?thesis using disperse_twice_one [of i] by simp
  next
    case (Suc k')
    have m: "0 < (2::nat) ^ k'" by simp
    have e: "real (2 * 2 ^ k') = 2 ^ k" by (simp add: Suc)
    from disperse_twice_even [OF m, of i] show ?thesis by (simp only: e)
  qed
  have "Option.bind (swappedIndex p (2 ^ k) (real i)) (swappedIndex p (2 ^ k)) = Some (real i)"
    by (cases p) (simp_all only: swappedIndex_eta flip disperse Option.bind.simps)
  then show ?thesis by simp
qed

section \<open>Properties of the step sequencer\<close>

subsection \<open>One frame, field by field\<close>

text \<open>
  The settings update neither reads nor writes the buffers or the step request, so a step
  is the settings update followed by four buffer writes and the read-back.
\<close>

lemma advanceSettings_buffers:
  "advanceSettings (s\<lparr>elementsOutputBuffer := a, atomicSwapsOutputBuffer := b\<rparr>) =
     (advanceSettings s)\<lparr>elementsOutputBuffer := a, atomicSwapsOutputBuffer := b\<rparr>"
  by (simp add: advanceSettings_def Let_def)

lemma advanceSettings_executeStep:
  "advanceSettings (s\<lparr>executeStep := b\<rparr>) = (advanceSettings s)\<lparr>executeStep := b\<rparr>"
  by (simp add: advanceSettings_def Let_def)

lemma advanceSettings_keeps:
  "executeStep (advanceSettings s) = executeStep s"
  "Total_Elements (advanceSettings s) = Total_Elements s"
  "Workgroup_Size (advanceSettings s) = Workgroup_Size s"
  "Size_Limit (advanceSettings s) = Size_Limit s"
  "Workgroups_Per_Step (advanceSettings s) = Workgroups_Per_Step s"
  "Total_Steps (advanceSettings s) = Total_Steps s"
  "Hovered_Cell (advanceSettings s) = Hovered_Cell s"
  by (simp_all add: advanceSettings_def Let_def)

lemma dispatchStep_eq:
  "dispatchStep gpu s =
     (advanceSettings s)\<lparr>elementsOutputBuffer := fst (gpu s), atomicSwapsOutputBuffer := snd (gpu s),
        elementsStagingBuffer := fst (gpu s), atomicSwapsStagingBuffer := snd (gpu s)\<rparr>"
proof -
  have keep: "elementsOutputBuffer ((advanceSettings s)\<lparr>elementsOutputBuffer := a, atomicSwapsOutputBuffer := b\<rparr>) = a"
    "atomicSwapsOutputBuffer ((advanceSettings s)\<lparr>elementsOutputBuffer := a, atomicSwapsOutputBuffer := b\<rparr>) = b" for a b
    by simp_all
  show ?thesis
    unfolding dispatchStep_def Let_def case_prod_beta advanceSettings_buffers keep ..
qed

lemma readBack_eq:
  "readBack s = s\<lparr>Total_Swaps := real (unat (atomicSwapsStagingBuffer s)),
      elements := take (nat \<lfloor>Total_Elements s\<rfloor>) (elementsStagingBuffer s),
      Swapped_Cell := swappedIndex (Next_Step s) (Next_Swap_Span s) (Hovered_Cell s)\<rparr>"
  by (simp add: readBack_def setSwappedCell_def Let_def)

lemma advance_eq:
  "advance gpu s =
     (readBack (if highestBlockHeight s \<noteq> Total_Elements s * 2
                then dispatchStep gpu (s\<lparr>executeStep := True\<rparr>)
                else s\<lparr>executeStep := True\<rparr>))\<lparr>executeStep := False\<rparr>"
  by (simp add: advance_def frame_def executeSortStep_def Let_def dispatchStep_eq
      advanceSettings_keeps)

lemma advance_run:
  assumes "highestBlockHeight s \<noteq> Total_Elements s * 2"
  shows "Next_Step (advance gpu s) = Next_Step (advanceSettings s)"
    and "Next_Swap_Span (advance gpu s) = Next_Swap_Span (advanceSettings s)"
    and "highestBlockHeight (advance gpu s) = highestBlockHeight (advanceSettings s)"
    and "Step_Index (advance gpu s) = Step_Index (advanceSettings s)"
    and "Prev_Step (advance gpu s) = Prev_Step (advanceSettings s)"
    and "Prev_Swap_Span (advance gpu s) = Prev_Swap_Span (advanceSettings s)"
  using assms
  by (simp_all add: advance_eq readBack_eq dispatchStep_eq advanceSettings_executeStep)

lemma advance_idle:
  assumes "highestBlockHeight s = Total_Elements s * 2"
  shows "Next_Step (advance gpu s) = Next_Step s"
    and "Next_Swap_Span (advance gpu s) = Next_Swap_Span s"
    and "highestBlockHeight (advance gpu s) = highestBlockHeight s"
    and "Step_Index (advance gpu s) = Step_Index s"
    and "Prev_Step (advance gpu s) = Prev_Step s"
    and "Prev_Swap_Span (advance gpu s) = Prev_Swap_Span s"
  using assms by (simp_all add: advance_eq readBack_eq)

lemma advance_config:
  "Total_Elements (advance gpu s) = Total_Elements s"
  "Workgroup_Size (advance gpu s) = Workgroup_Size s"
  "Size_Limit (advance gpu s) = Size_Limit s"
  "Workgroups_Per_Step (advance gpu s) = Workgroups_Per_Step s"
  "Total_Steps (advance gpu s) = Total_Steps s"
  by (simp_all add: advance_eq readBack_eq dispatchStep_eq advanceSettings_executeStep
      advanceSettings_keeps)

text \<open>The two branches of the settings update.\<close>

lemma advanceSettings_counters:
  "Step_Index (advanceSettings s) = Step_Index s + 1"
  "Prev_Step (advanceSettings s) = Next_Step s"
  "Prev_Swap_Span (advanceSettings s) = Next_Swap_Span s"
  by (simp_all add: advanceSettings_def Let_def)

lemma advanceSettings_cycle_end:
  assumes "Next_Swap_Span s = 2"
  shows "highestBlockHeight (advanceSettings s) = highestBlockHeight s * 2"
    and "Next_Step (advanceSettings s) =
       (if highestBlockHeight s * 2 = Total_Elements s * 2 then NONE
        else if highestBlockHeight s * 2 > Workgroup_Size s * 2 then FLIP_GLOBAL
        else FLIP_LOCAL)"
    and "Next_Swap_Span (advanceSettings s) =
       (if highestBlockHeight s * 2 = Total_Elements s * 2 then 0
        else highestBlockHeight s * 2)"
  using assms by (simp_all add: advanceSettings_def Let_def)

lemma advanceSettings_disperse:
  assumes "Next_Swap_Span s \<noteq> 2"
  shows "highestBlockHeight (advanceSettings s) = highestBlockHeight s"
    and "Next_Step (advanceSettings s) =
       (if Next_Swap_Span s / 2 > Workgroup_Size s * 2 then DISPERSE_GLOBAL
        else DISPERSE_LOCAL)"
    and "Next_Swap_Span (advanceSettings s) = Next_Swap_Span s / 2"
  using assms by (simp_all add: advanceSettings_def Let_def)

subsection \<open>Merge cycles\<close>

text \<open>
  Within cycle \<open>k\<close> the span goes down from \<open>2 ^ k\<close> to 2; the step of span 2 starts cycle
  \<open>k + 1\<close>, or ends the sort when \<open>k = n\<close>.
\<close>

lemma two_power_eq_two: "(2::real) ^ j = 2 \<longleftrightarrow> j = 1"
proof -
  have "(2::real) ^ j = 2 ^ 1 \<longleftrightarrow> j = 1" by (rule power_inject_exp) simp
  then show ?thesis by simp
qed

lemma pow2_eq: "(2::real) ^ a = 2 ^ b \<longleftrightarrow> a = b"
  by (rule power_inject_exp) simp

lemma pow2_less: "(2::real) ^ a < 2 ^ b \<longleftrightarrow> a < b"
  by (rule power_strict_increasing_iff) simp

lemma cycle_runs:
  assumes "inCycle n w k j s" "k \<le> n"
  shows "highestBlockHeight s \<noteq> Total_Elements s * 2"
proof -
  have "(2::real) ^ k = 2 ^ Suc n \<longleftrightarrow> k = Suc n" by (rule power_inject_exp) simp
  then have "(2::real) ^ k \<noteq> 2 ^ Suc n" using assms(2) by simp
  then show ?thesis using assms(1) by (simp add: inCycle_def)
qed

lemma cycle_disperse:
  assumes c: "inCycle n w k (Suc (Suc j)) s" and jk: "Suc (Suc j) \<le> k" and kn: "k \<le> n"
  shows "inCycle n w k (Suc j) (advance gpu s)"
proof -
  note run = cycle_runs [OF c kn]
  have sp: "Next_Swap_Span s = 2 ^ Suc (Suc j)" and ws: "Workgroup_Size s = 2 ^ w"
    using c by (simp_all add: inCycle_def)
  have ne: "Next_Swap_Span s \<noteq> 2" by (simp add: sp two_power_eq_two del: power_Suc)
  have half: "Next_Swap_Span s / 2 = 2 ^ Suc j" by (simp add: sp)
  have "2 ^ w * 2 = (2::real) ^ Suc w" by simp
  then have cmp: "Next_Swap_Span s / 2 > Workgroup_Size s * 2 \<longleftrightarrow> Suc w < Suc j"
    unfolding half ws by (simp only: pow2_less)
  have "Next_Step (advance gpu s) = stepClass w k (Suc j)"
    using jk cmp by (simp add: advance_run [OF run] advanceSettings_disperse [OF ne] stepClass_def)
  moreover have "Next_Swap_Span (advance gpu s) = 2 ^ Suc j"
    by (simp only: advance_run [OF run] advanceSettings_disperse [OF ne] half)
  moreover have "highestBlockHeight (advance gpu s) = 2 ^ k"
    using c by (simp add: advance_run [OF run] advanceSettings_disperse [OF ne] inCycle_def)
  ultimately show ?thesis
    using c by (simp add: inCycle_def advance_config)
qed

lemma cycle_end:
  assumes c: "inCycle n w k (Suc 0) s" and kn: "k \<le> n"
  shows "if k = n then sortOver n w (advance gpu s)
         else inCycle n w (Suc k) (Suc k) (advance gpu s)"
proof -
  note run = cycle_runs [OF c kn]
  have sp: "Next_Swap_Span s = 2" and ws: "Workgroup_Size s = 2 ^ w"
    and hb: "highestBlockHeight s = 2 ^ k" and te: "Total_Elements s = 2 ^ n"
    using c by (simp_all add: inCycle_def)
  have h2: "highestBlockHeight s * 2 = 2 ^ Suc k" by (simp add: hb)
  have t2: "Total_Elements s * 2 = 2 ^ Suc n" by (simp add: te)
  have w2: "Workgroup_Size s * 2 = 2 ^ Suc w" by (simp add: ws)
  have e: "(2::real) ^ Suc k = 2 ^ Suc n \<longleftrightarrow> k = n"
    by (simp only: pow2_eq nat.inject)
  have g: "(2::real) ^ Suc w < 2 ^ Suc k \<longleftrightarrow> w < k"
    by (simp only: pow2_less Suc_less_eq)
  have ns: "Next_Step (advance gpu s) = (if k = n then NONE else stepClass w (Suc k) (Suc k))"
    by (simp only: advance_run [OF run] advanceSettings_cycle_end [OF sp] h2 t2 w2 e g)
      (simp add: stepClass_def)
  have nsp: "Next_Swap_Span (advance gpu s) = (if k = n then 0 else 2 ^ Suc k)"
    by (simp only: advance_run [OF run] advanceSettings_cycle_end [OF sp] h2 t2 e)
  have nh: "highestBlockHeight (advance gpu s) = 2 ^ Suc k"
    by (simp only: advance_run [OF run] advanceSettings_cycle_end [OF sp] h2)
  show ?thesis
    using ns nsp nh te ws by (simp add: sortOver_def inCycle_def advance_config)
qed

lemma over_stays:
  assumes "sortOver n w s"
  shows "sortOver n w (advance gpu s)" and "Step_Index (advance gpu s) = Step_Index s"
proof -
  have idle: "highestBlockHeight s = Total_Elements s * 2"
    using assms by (simp add: sortOver_def)
  show "sortOver n w (advance gpu s)"
    using assms by (simp add: sortOver_def advance_idle [OF idle] advance_config)
  show "Step_Index (advance gpu s) = Step_Index s"
    by (rule advance_idle [OF idle])
qed

lemma stepsLeft_next: "k < n \<Longrightarrow> stepsLeft n k (Suc 0) = Suc (stepsLeft n (Suc k) (Suc k))"
  by (simp add: stepsLeft_def sum.atLeast_Suc_atMost)

lemma stepsLeft_last: "stepsLeft n n (Suc 0) = 1"
  by (simp add: stepsLeft_def)

lemma stepsLeft_disperse: "stepsLeft n k (Suc j) = Suc (stepsLeft n k j)"
  by (simp add: stepsLeft_def)

lemma stepsLeft_start: "1 \<le> n \<Longrightarrow> stepsLeft n 1 1 = n * (n + 1) div 2"
proof -
  assume "1 \<le> n"
  then have "(\<Sum>i = Suc 0..n. i) = Suc 0 + (\<Sum>i = Suc (Suc 0)..n. i)"
    by (intro sum.atLeast_Suc_atMost) simp
  moreover have "(\<Sum>i = Suc 0..n. i) = n * (n + 1) div 2"
    using gauss_sum_from_Suc_0 [of n, where ?'a = nat] by simp
  ultimately show ?thesis by (simp add: stepsLeft_def)
qed

text \<open>Every step of a running sort uses up one of the steps left.\<close>

lemma progress_step:
  assumes "progress n w r s"
  shows "progress n w (r - 1) (advance gpu s)"
    and "Step_Index (advance gpu s) = (if r = 0 then Step_Index s else Step_Index s + 1)"
proof -
  consider (over) "r = 0" "sortOver n w s"
    | (cyc) k j where "1 \<le> j" "j \<le> k" "k \<le> n" "inCycle n w k j s" "r = stepsLeft n k j"
    using assms unfolding progress_def by blast
  then have "progress n w (r - 1) (advance gpu s) \<and>
      Step_Index (advance gpu s) = (if r = 0 then Step_Index s else Step_Index s + 1)"
  proof cases
    case over
    then show ?thesis using over_stays [of n w s gpu] by (simp add: progress_def)
  next
    case cyc
    note run = cycle_runs [OF cyc(4) cyc(3)]
    have idx: "Step_Index (advance gpu s) = Step_Index s + 1"
      by (simp add: advance_run [OF run] advanceSettings_counters)
    have rpos: "r \<noteq> 0" using cyc(1,5) by (simp add: stepsLeft_def)
    obtain j' where j: "j = Suc j'" using cyc(1) by (cases j) simp_all
    show ?thesis
    proof (cases j')
      case 0
      with j cyc have c: "inCycle n w k (Suc 0) s" by simp
      show ?thesis
      proof (cases "k = n")
        case True
        with cycle_end [OF c cyc(3), of gpu] have "sortOver n w (advance gpu s)" by simp
        moreover have "r - 1 = 0" using cyc(5) j 0 True by (simp add: stepsLeft_last)
        ultimately show ?thesis using idx rpos by (simp add: progress_def)
      next
        case False
        with cycle_end [OF c cyc(3), of gpu]
        have "inCycle n w (Suc k) (Suc k) (advance gpu s)" by simp
        moreover have "r - 1 = stepsLeft n (Suc k) (Suc k)"
          using cyc(3,5) j 0 False by (simp add: stepsLeft_next)
        moreover have "Suc k \<le> n" using cyc(3) False by simp
        ultimately have "progress n w (r - 1) (advance gpu s)"
          unfolding progress_def by (intro disjI2 exI [of _ "Suc k"]) simp
        then show ?thesis using idx rpos by simp
      qed
    next
      case (Suc j'')
      with j cyc have c: "inCycle n w k (Suc (Suc j'')) s" and le: "Suc (Suc j'') \<le> k" by simp_all
      have "inCycle n w k (Suc j'') (advance gpu s)" by (rule cycle_disperse [OF c le cyc(3)])
      moreover have "r - 1 = stepsLeft n k (Suc j'')"
        using cyc(5) j Suc by (simp add: stepsLeft_disperse)
      moreover have "Suc j'' \<le> k" using le by simp
      ultimately have "progress n w (r - 1) (advance gpu s)"
        unfolding progress_def using cyc(3) by (intro disjI2 exI [of _ k] exI [of _ "Suc j''"]) simp
      then show ?thesis using idx rpos by simp
    qed
  qed
  then show "progress n w (r - 1) (advance gpu s)"
    and "Step_Index (advance gpu s) = (if r = 0 then Step_Index s else Step_Index s + 1)"
    by simp_all
qed

lemma progress_run:
  assumes "progress n w r s"
  shows "progress n w (r - t) ((advance gpu ^^ t) s) \<and>
         Step_Index ((advance gpu ^^ t) s) = Step_Index s + real (min t r)"
proof (induction t)
  case 0
  show ?case using assms by simp
next
  case (Suc t)
  let ?s = "(advance gpu ^^ t) s"
  from Suc have p: "progress n w (r - t) ?s"
    and i: "Step_Index ?s = Step_Index s + real (min t r)" by simp_all
  have "progress n w (r - t - 1) (advance gpu ?s)" by (rule progress_step(1) [OF p])
  moreover have "Step_Index (advance gpu ?s) = (if r - t = 0 then Step_Index ?s else Step_Index ?s + 1)"
    by (rule progress_step(2) [OF p])
  ultimately show ?case using i by (auto simp: min_def)
qed

lemma stepClass_not_NONE: "stepClass w k j \<noteq> NONE"
  by (simp add: stepClass_def)

lemma progress_NONE:
  assumes "progress n w r s"
  shows "Next_Step s = NONE \<longleftrightarrow> r = 0"
proof -
  consider (over) "r = 0" "sortOver n w s"
    | (cyc) k j where "1 \<le> j" "inCycle n w k j s" "r = stepsLeft n k j"
    using assms unfolding progress_def by blast
  then show ?thesis
  proof cases
    case over
    then show ?thesis by (simp add: sortOver_def)
  next
    case cyc
    have "Next_Step s \<noteq> NONE" using cyc(2) by (simp add: inCycle_def stepClass_not_NONE)
    moreover have "r \<noteq> 0" using cyc(1,3) by (simp add: stepsLeft_def)
    ultimately show ?thesis by simp
  qed
qed

text \<open>A reset session is at the start of cycle 1.\<close>

lemma reset_fields:
  "Total_Elements (resetExecutionInformation s) = Total_Elements s"
  "Size_Limit (resetExecutionInformation s) = Size_Limit s"
  "Workgroup_Size (resetExecutionInformation s) = min (Total_Elements s / 2) (Size_Limit s)"
  "Workgroups_Per_Step (resetExecutionInformation s) =
     map_option jsCeil (jsDivide (Total_Elements s - 1) (Size_Limit s * 2))"
  "Step_Index (resetExecutionInformation s) = 0"
  "Total_Steps (resetExecutionInformation s) = getNumSteps (Total_Elements s)"
  "Prev_Step (resetExecutionInformation s) = NONE"
  "Next_Step (resetExecutionInformation s) = FLIP_LOCAL"
  "Prev_Swap_Span (resetExecutionInformation s) = 0"
  "Next_Swap_Span (resetExecutionInformation s) = 2"
  "highestBlockHeight (resetExecutionInformation s) = 2"
  by (simp_all add: resetExecutionInformation_def Let_def)

lemma min_pow2:
  assumes "1 \<le> n"
  shows "min ((2::real) ^ n / 2) (2 ^ m) = 2 ^ min (n - 1) m"
proof -
  obtain n' where n: "n = Suc n'" using assms by (cases n) simp_all
  have "min ((2::real) ^ n') (2 ^ m) = 2 ^ min n' m"
    by (cases "n' \<le> m") (simp_all add: min_def)
  then show ?thesis by (simp add: n)
qed

lemma reset_inCycle:
  assumes "Total_Elements s = 2 ^ n" "Size_Limit s = 2 ^ m" "1 \<le> n"
  shows "inCycle n (min (n - 1) m) 1 1 (resetExecutionInformation s)"
proof -
  have "Workgroup_Size (resetExecutionInformation s) = 2 ^ min (n - 1) m"
    by (simp only: reset_fields assms(1,2) min_pow2 [OF assms(3)])
  then show ?thesis
    using assms(1) by (simp add: inCycle_def reset_fields stepClass_def)
qed

lemma reset_progress:
  assumes "Total_Elements s = 2 ^ n" "Size_Limit s = 2 ^ m" "1 \<le> n"
  shows "progress n (min (n - 1) m) (n * (n + 1) div 2) (resetExecutionInformation s)"
proof -
  let ?w = "min (n - 1) m"
  have "inCycle n ?w 1 1 (resetExecutionInformation s)"
    by (rule reset_inCycle [OF assms])
  moreover have "n * (n + 1) div 2 = stepsLeft n 1 1" by (rule stepsLeft_start [OF assms(3), symmetric])
  ultimately show ?thesis unfolding progress_def using assms(3)
    by (intro disjI2 exI [of _ 1]) simp
qed

lemma getNumSteps_pow2: "getNumSteps (2 ^ n) = Some (real (n * (n + 1) div 2))"
proof -
  have l: "log 2 (2 ^ n) = real n" by simp
  have "2 dvd n * (n + 1)" by simp
  from real_of_nat_div [OF this] have "real (n * (n + 1) div 2) = real (n * (n + 1)) / 2"
    by simp
  then have e: "real n * (real n + 1) / 2 = real (n * (n + 1) div 2)"
    by (simp add: algebra_simps)
  have pos: "\<not> (2::real) ^ n \<le> 0" by (simp add: not_le)
  show ?thesis by (simp only: getNumSteps_def pos if_False Let_def l e)
qed

subsection \<open>Further facts about single steps and session set-up\<close>

lemma advance_hover:
  "Hovered_Cell (advance gpu s) = Hovered_Cell s"
  "Swapped_Cell (advance gpu s) =
     swappedIndex (Next_Step (advance gpu s)) (Next_Swap_Span (advance gpu s)) (Hovered_Cell s)"
  by (simp_all add: advance_eq readBack_eq dispatchStep_eq advanceSettings_executeStep
      advanceSettings_keeps)

lemma reset_hover: "Hovered_Cell (resetExecutionInformation s) = Hovered_Cell s"
  by (simp add: resetExecutionInformation_def Let_def)

lemma advance_cycle_end:
  assumes run: "highestBlockHeight s \<noteq> Total_Elements s * 2" and sp: "Next_Swap_Span s = 2"
  shows "highestBlockHeight (advance gpu s) = highestBlockHeight s * 2"
    and "Next_Step (advance gpu s) =
       (if highestBlockHeight s * 2 = Total_Elements s * 2 then NONE
        else if highestBlockHeight s * 2 > Workgroup_Size s * 2 then FLIP_GLOBAL
        else FLIP_LOCAL)"
    and "Next_Swap_Span (advance gpu s) =
       (if highestBlockHeight s * 2 = Total_Elements s * 2 then 0
        else highestBlockHeight s * 2)"
  by (simp_all only: advance_run [OF run] advanceSettings_cycle_end [OF sp])

lemma advance_disperse:
  assumes run: "highestBlockHeight s \<noteq> Total_Elements s * 2" and sp: "Next_Swap_Span s \<noteq> 2"
  shows "highestBlockHeight (advance gpu s) = highestBlockHeight s"
    and "Next_Step (advance gpu s) =
       (if Next_Swap_Span s / 2 > Workgroup_Size s * 2 then DISPERSE_GLOBAL
        else DISPERSE_LOCAL)"
    and "Next_Swap_Span (advance gpu s) = Next_Swap_Span s / 2"
  by (simp_all only: advance_run [OF run] advanceSettings_disperse [OF sp])

lemma local_or_global:
  assumes "k < n"
  shows "(2::real) ^ Suc k > 2 ^ min (n - 1) m * 2 \<longleftrightarrow> (2::real) ^ Suc k > 2 ^ m * 2"
proof -
  have "(2::real) ^ Suc (min (n - 1) m) < 2 ^ Suc k \<longleftrightarrow> Suc (min (n - 1) m) < Suc k"
    by (rule pow2_less)
  moreover have "(2::real) ^ Suc m < 2 ^ Suc k \<longleftrightarrow> Suc m < Suc k"
    by (rule pow2_less)
  moreover have "Suc (min (n - 1) m) < Suc k \<longleftrightarrow> Suc m < Suc k"
    using assms by (auto simp: min_def)
  ultimately show ?thesis by simp
qed

lemma advance_pow_config:
  "Workgroups_Per_Step ((advance gpu ^^ t) s) = Workgroups_Per_Step s"
  "Total_Elements ((advance gpu ^^ t) s) = Total_Elements s"
  "Size_Limit ((advance gpu ^^ t) s) = Size_Limit s"
  by (induction t) (simp_all add: advance_config)

lemma advanceSettings_NONE:
  assumes "Next_Step (advanceSettings s) = NONE"
  shows "highestBlockHeight (advanceSettings s) = Total_Elements s * 2"
  using assms by (simp add: advanceSettings_def Let_def split: if_splits)

lemma advance_NONE:
  assumes "Next_Step s = NONE \<longrightarrow> highestBlockHeight s = Total_Elements s * 2"
  shows "Next_Step (advance gpu s) = NONE \<longrightarrow>
         highestBlockHeight (advance gpu s) = Total_Elements (advance gpu s) * 2"
proof (cases "highestBlockHeight s = Total_Elements s * 2")
  case True
  then show ?thesis by (simp add: advance_idle advance_config)
next
  case False
  then show ?thesis
    using advanceSettings_NONE [of s] by (simp add: advance_run advance_config)
qed

lemma advance_pow_NONE:
  assumes "Next_Step s \<noteq> NONE"
  shows "Next_Step ((advance gpu ^^ t) s) = NONE \<longrightarrow>
         highestBlockHeight ((advance gpu ^^ t) s) = Total_Elements ((advance gpu ^^ t) s) * 2"
proof (induction t)
  case 0
  show ?case using assms by simp
next
  case (Suc t)
  from advance_NONE [OF Suc, of gpu] show ?case by simp
qed

lemma readBack_settled:
  "(readBack (((readBack y)\<lparr>executeStep := False\<rparr>)\<lparr>executeStep := True\<rparr>))\<lparr>executeStep := False\<rparr>
     = (readBack y)\<lparr>executeStep := False\<rparr>"
  by (simp add: readBack_eq)

lemma advance_twice_idle:
  assumes "highestBlockHeight (advance gpu s) = Total_Elements (advance gpu s) * 2"
  shows "advance gpu (advance gpu s) = advance gpu s"
proof -
  obtain y where y: "advance gpu s = (readBack y)\<lparr>executeStep := False\<rparr>"
    using advance_eq [of gpu s] by blast
  have "advance gpu (advance gpu s)
      = (readBack ((advance gpu s)\<lparr>executeStep := True\<rparr>))\<lparr>executeStep := False\<rparr>"
    using assms by (simp only: advance_eq [of gpu "advance gpu s"] if_False simp_thms)
  also have "\<dots> = advance gpu s"
    unfolding y by (rule readBack_settled)
  finally show ?thesis .
qed

lemma reset_resize:
  "resetExecutionInformation (resizeElementArray rnd s) = resizeElementArray rnd s"
  by (simp add: resizeElementArray_def resetExecutionInformation_def randomizeElementArray_def
      Let_def)

lemma resize_fields:
  "Total_Elements (resizeElementArray rnd s) = Total_Elements s"
  "Size_Limit (resizeElementArray rnd s) = Size_Limit s"
  "Workgroup_Size (resizeElementArray rnd s) = min (Total_Elements s / 2) (Size_Limit s)"
  "Step_Index (resizeElementArray rnd s) = 0"
  "Next_Step (resizeElementArray rnd s) = FLIP_LOCAL"
  "Next_Swap_Span (resizeElementArray rnd s) = 2"
  "highestBlockHeight (resizeElementArray rnd s) = 2"
  by (simp_all add: resizeElementArray_def randomizeElementArray_def Let_def reset_fields)

lemma selectSizeLimit_fields:
  "Total_Elements (selectSizeLimit l s) = Total_Elements s"
  "Size_Limit (selectSizeLimit l s) = l"
  by (simp_all add: selectSizeLimit_def sizeLimitOnChange_def Let_def)

lemma pow2_le: "(2::real) ^ a \<le> 2 ^ b \<longleftrightarrow> a \<le> b"
  by (rule power_increasing_iff) simp

lemma totalElementOptions_pow2:
  "x \<in> set (totalElementOptions (2 ^ q)) \<Longrightarrow> \<exists>n. 2 \<le> n \<and> x = 2 ^ n"
proof (induction q)
  case 0
  then show ?case by (subst (asm) totalElementOptions.simps) simp
next
  case (Suc q)
  show ?case
  proof (cases "(4::real) \<le> 2 ^ Suc q")
    case True
    have "(2::real) ^ 2 \<le> 2 ^ Suc q \<longleftrightarrow> 2 \<le> Suc q" by (rule pow2_le)
    with True have q: "2 \<le> Suc q" by simp
    have "totalElementOptions (2 ^ Suc q) = 2 ^ Suc q # totalElementOptions (2 ^ q)"
      using True by (subst totalElementOptions.simps) simp
    with Suc.prems have "x = 2 ^ Suc q \<or> x \<in> set (totalElementOptions (2 ^ q))" by simp
    then show ?thesis using q Suc.IH by blast
  next
    case False
    then have "totalElementOptions (2 ^ Suc q) = []"
      by (subst totalElementOptions.simps) simp
    with Suc.prems show ?thesis by simp
  qed
qed

lemma sizeLimitOptions_pow2:
  "l \<in> set (sizeLimitOptions (2 ^ q)) \<Longrightarrow> \<exists>m. 1 \<le> m \<and> l = 2 ^ m"
proof (induction q)
  case 0
  then show ?case by (subst (asm) sizeLimitOptions.simps) simp
next
  case (Suc q)
  have "sizeLimitOptions (2 ^ Suc q) = 2 ^ Suc q # sizeLimitOptions (2 ^ q)"
    by (subst sizeLimitOptions.simps) simp
  with Suc.prems have "l = 2 ^ Suc q \<or> l \<in> set (sizeLimitOptions (2 ^ q))" by simp
  then show ?case using Suc.IH by (metis le_add1 plus_1_eq_Suc)
qed

lemma options_8:
  "totalElementOptions (8 * 32) = [256, 128, 64, 32, 16, 8, 4]"
  "sizeLimitOptions 8 = [8, 4, 2]"
  by (simp_all add: totalElementOptions.simps sizeLimitOptions.simps)

subsection \<open>Whole runs\<close>

lemma randomize_fields:
  "Total_Elements (randomizeElementArray rnd s) = Total_Elements s"
  "Size_Limit (randomizeElementArray rnd s) = Size_Limit s"
  by (simp_all add: randomizeElementArray_def)

lemma demoSession_config:
  "Total_Elements (demoSession n l) = n"
  "Size_Limit (demoSession n l) = l"
  by (simp_all add: demoSession_def selectTotalElements_def resizeElementArray_def Let_def
      randomize_fields reset_fields selectSizeLimit_def sizeLimitOnChange_def)

lemma run_summary:
  assumes "Total_Elements s = 2 ^ n" and "Size_Limit s = 2 ^ m" and "1 \<le> n"
  shows "(Next_Step ((advance gpu ^^ t) (resetExecutionInformation s)) = NONE
            \<longleftrightarrow> n * (n + 1) div 2 \<le> t) \<and>
         Step_Index ((advance gpu ^^ t) (resetExecutionInformation s))
            = real (min t (n * (n + 1) div 2)) \<and>
         Total_Steps ((advance gpu ^^ t) (resetExecutionInformation s))
            = Some (real (n * (n + 1) div 2))"
proof -
  let ?T = "n * (n + 1) div 2" and ?s0 = "resetExecutionInformation s"
  let ?st = "(advance gpu ^^ t) ?s0"
  note p0 = reset_progress [OF assms]
  from progress_run [OF p0, of t gpu]
  have p: "progress n (min (n - 1) m) (?T - t) ?st"
    and i: "Step_Index ?st = Step_Index ?s0 + real (min t ?T)" by simp_all
  have "Next_Step ?st = NONE \<longleftrightarrow> ?T - t = 0" by (rule progress_NONE [OF p])
  then have a: "Next_Step ?st = NONE \<longleftrightarrow> ?T \<le> t" by simp
  have b: "Step_Index ?st = real (min t ?T)" using i by (simp add: reset_fields)
  have "Total_Steps ((advance gpu ^^ u) ?s0) = Total_Steps ?s0" for u
    by (induction u) (simp_all add: advance_config)
  then have c: "Total_Steps ?st = Some (real ?T)"
    by (simp add: reset_fields assms(1) getNumSteps_pow2)
  from a b c show ?thesis by simp
qed

text \<open>
  Claim C3. Let the session be started by \<open>resetExecutionInformation\<close> with
  \<open>2 ^ n\<close> elements (\<open>n \<ge> 1\<close>, so in particular for every \<open>N \<ge> 4\<close>) and a
  power-of-two size limit. Then the next step is \<open>NONE\<close> after \<open>t\<close> steps exactly when
  \<open>t \<ge> n (n + 1) / 2\<close>: the sequencer executes \<open>n (n + 1) / 2\<close> steps before the next
  phase becomes \<open>NONE\<close>. 'Step Index' counts the executed steps and stops there, and
  'Total Steps', computed by \<open>getNumSteps\<close>, reports the same number.
\<close>

theorem total_step_count:
  assumes "Total_Elements s = 2 ^ n" and "Size_Limit s = 2 ^ m" and "1 \<le> n"
  shows "(Next_Step ((advance gpu ^^ t) (resetExecutionInformation s)) = NONE
            \<longleftrightarrow> n * (n + 1) div 2 \<le> t) \<and>
         Step_Index ((advance gpu ^^ t) (resetExecutionInformation s))
            = real (min t (n * (n + 1) div 2)) \<and>
         Total_Steps ((advance gpu ^^ t) (resetExecutionInformation s))
            = Some (real (n * (n + 1) div 2))"
  by (rule run_summary [OF assms])

theorem total_step_count_witness:
  "Total_Elements (demoSession 8 8) = 2 ^ 3 \<and> Size_Limit (demoSession 8 8) = 2 ^ 3 \<and>
   Next_Step ((advance idleExecutor ^^ 6) (resetExecutionInformation (demoSession 8 8))) = NONE \<and>
   Next_Step ((advance idleExecutor ^^ 5) (resetExecutionInformation (demoSession 8 8))) \<noteq> NONE \<and>
   Step_Index ((advance idleExecutor ^^ 6) (resetExecutionInformation (demoSession 8 8))) = 6 \<and>
   Total_Steps (resetExecutionInformation (demoSession 8 8)) = Some 6"
  using total_step_count [of "demoSession 8 8" 3 3 6 idleExecutor]
    total_step_count [of "demoSession 8 8" 3 3 5 idleExecutor]
    total_step_count [of "demoSession 8 8" 3 3 0 idleExecutor]
  by (simp add: demoSession_config)

lemma stepsLeft_one:
  assumes "1 \<le> j" "k \<le> n" "stepsLeft n k j = 1"
  shows "j = 1 \<and> k = n"
proof -
  define rest where "rest = (\<Sum>i = Suc k..n. i)"
  have "j + rest = 1" using assms(3) by (simp only: stepsLeft_def rest_def)
  with assms(1) have "rest = 0" and j: "j = 1" by linarith+
  then have s0: "(\<Sum>i = Suc k..n. i) = 0" by (simp only: rest_def)
  have "k = n"
  proof (rule ccontr)
    assume "k \<noteq> n"
    then have "Suc k \<le> n" using assms(2) by simp
    then have "(\<Sum>i = Suc k..n. i) = Suc k + (\<Sum>i = Suc (Suc k)..n. i)"
      by (rule sum.atLeast_Suc_atMost)
    then show False using s0 by simp
  qed
  with j show ?thesis by simp
qed

lemma progress_cycle:
  assumes "progress n w r s" "0 < r"
  obtains k j where "1 \<le> j" "j \<le> k" "k \<le> n" "inCycle n w k j s" "r = stepsLeft n k j"
  using assms unfolding progress_def by blast

lemma pow2_ne_one: "1 \<le> j \<Longrightarrow> (2::real) ^ j \<noteq> 1"
  using pow2_eq [of j 0] by simp

text \<open>
  Claim C10. In a session started with \<open>2 ^ n\<close> elements, \<open>n \<ge> 2\<close>, and a power-of-two
  size limit, every executed step (the step described by 'Next Step' and 'Next Swap Span'
  after \<open>t < n (n + 1) / 2\<close> steps) has a span \<open>2 ^ j\<close> with \<open>1 \<le> j \<le> n\<close>, so never the
  span 1; a step of span 2 ends its merge cycle, the block height being doubled right after
  it; and the last executed step is \<open>DISPERSE_LOCAL\<close> with span 2, which is what
  'Prev Step' and 'Prev Swap Span' show when the sort is over.
\<close>

theorem executed_spans:
  assumes "Total_Elements s = 2 ^ n" and "Size_Limit s = 2 ^ m" and "2 \<le> n"
  shows "(\<forall>t < n * (n + 1) div 2.
            (\<exists>j. 1 \<le> j \<and> j \<le> n \<and>
                 Next_Swap_Span ((advance gpu ^^ t) (resetExecutionInformation s)) = 2 ^ j) \<and>
            Next_Swap_Span ((advance gpu ^^ t) (resetExecutionInformation s)) \<noteq> 1 \<and>
            (Next_Swap_Span ((advance gpu ^^ t) (resetExecutionInformation s)) = 2 \<longrightarrow>
               highestBlockHeight ((advance gpu ^^ Suc t) (resetExecutionInformation s)) =
               2 * highestBlockHeight ((advance gpu ^^ t) (resetExecutionInformation s)))) \<and>
         Next_Step ((advance gpu ^^ (n * (n + 1) div 2 - 1)) (resetExecutionInformation s))
            = DISPERSE_LOCAL \<and>
         Next_Swap_Span ((advance gpu ^^ (n * (n + 1) div 2 - 1)) (resetExecutionInformation s)) = 2 \<and>
         Prev_Step ((advance gpu ^^ (n * (n + 1) div 2)) (resetExecutionInformation s))
            = DISPERSE_LOCAL \<and>
         Prev_Swap_Span ((advance gpu ^^ (n * (n + 1) div 2)) (resetExecutionInformation s)) = 2"
proof -
  let ?T = "n * (n + 1) div 2" and ?w = "min (n - 1) m"
  let ?S = "\<lambda>t. (advance gpu ^^ t) (resetExecutionInformation s)"
  have n1: "1 \<le> n" using assms(3) by simp
  note p0 = reset_progress [OF assms(1,2) n1]
  have p: "progress n ?w (?T - t) (?S t)" for t
    using progress_run [OF p0, of t gpu] by simp
  have T: "0 < ?T" using stepsLeft_start [OF n1] by (simp add: stepsLeft_def)
  have A: "(\<exists>j. 1 \<le> j \<and> j \<le> n \<and> Next_Swap_Span (?S t) = 2 ^ j) \<and>
           Next_Swap_Span (?S t) \<noteq> 1 \<and>
           (Next_Swap_Span (?S t) = 2 \<longrightarrow>
              highestBlockHeight (?S (Suc t)) = 2 * highestBlockHeight (?S t))"
    if "t < ?T" for t
  proof -
    from that have "0 < ?T - t" by simp
    with p [of t] obtain k j where kj: "1 \<le> j" "j \<le> k" "k \<le> n" "inCycle n ?w k j (?S t)"
      by (rule progress_cycle)
    have sp: "Next_Swap_Span (?S t) = 2 ^ j" and hb: "highestBlockHeight (?S t) = 2 ^ k"
      using kj(4) by (simp_all add: inCycle_def)
    have 1: "\<exists>j. 1 \<le> j \<and> j \<le> n \<and> Next_Swap_Span (?S t) = 2 ^ j"
      using kj sp by (intro exI [of _ j]) simp
    have 2: "Next_Swap_Span (?S t) \<noteq> 1"
      unfolding sp by (rule pow2_ne_one [OF kj(1)])
    have 3: "highestBlockHeight (?S (Suc t)) = 2 * highestBlockHeight (?S t)"
      if two: "Next_Swap_Span (?S t) = 2"
    proof -
      have "j = 1" using two two_power_eq_two [of j] by (simp add: sp)
      with kj(4) have c: "inCycle n ?w k (Suc 0) (?S t)" by simp
      from cycle_end [OF c kj(3), of gpu]
      have "highestBlockHeight (advance gpu (?S t)) = 2 ^ Suc k"
        by (simp add: sortOver_def inCycle_def split: if_splits)
      then show ?thesis by (simp add: hb)
    qed
    from 1 2 3 show ?thesis by blast
  qed
  have last: "inCycle n ?w n (Suc 0) (?S (?T - 1))"
  proof -
    have r: "?T - (?T - 1) = 1" using T by simp
    with p [of "?T - 1"] have q: "progress n ?w 1 (?S (?T - 1))" by simp
    from q obtain k j where kj: "1 \<le> j" "j \<le> k" "k \<le> n" "inCycle n ?w k j (?S (?T - 1))"
      "1 = stepsLeft n k j"
      by (rule progress_cycle) simp
    from stepsLeft_one [OF kj(1,3) kj(5) [symmetric]] kj(4) show ?thesis by simp
  qed
  have B1: "Next_Step (?S (?T - 1)) = DISPERSE_LOCAL"
    using last assms(3) by (simp add: inCycle_def stepClass_def)
  have B2: "Next_Swap_Span (?S (?T - 1)) = 2"
    using last by (simp add: inCycle_def)
  have ST: "?S ?T = advance gpu (?S (?T - 1))"
  proof -
    have "?T = Suc (?T - 1)" using T by simp
    then have "?S ?T = ?S (Suc (?T - 1))" by simp
    then show ?thesis by simp
  qed
  note run = cycle_runs [OF last order_refl]
  have C1: "Prev_Step (?S ?T) = DISPERSE_LOCAL"
    by (simp only: ST advance_run [OF run] advanceSettings_counters B1)
  have C2: "Prev_Swap_Span (?S ?T) = 2"
    by (simp only: ST advance_run [OF run] advanceSettings_counters B2)
  from A B1 B2 C1 C2 show ?thesis by blast
qed

theorem executed_spans_witness:
  "Total_Elements (demoSession 8 8) = 2 ^ 3 \<and> Size_Limit (demoSession 8 8) = 2 ^ 3 \<and>
   (4::nat) < 3 * (3 + 1) div 2 \<and>
   (\<exists>j. 1 \<le> j \<and> j \<le> (3::nat) \<and>
      Next_Swap_Span ((advance idleExecutor ^^ 4) (resetExecutionInformation (demoSession 8 8)))
        = 2 ^ j) \<and>
   Next_Swap_Span ((advance idleExecutor ^^ 4) (resetExecutionInformation (demoSession 8 8))) \<noteq> 1 \<and>
   Next_Step ((advance idleExecutor ^^ 5) (resetExecutionInformation (demoSession 8 8)))
     = DISPERSE_LOCAL \<and>
   Next_Swap_Span ((advance idleExecutor ^^ 5) (resetExecutionInformation (demoSession 8 8))) = 2 \<and>
   Prev_Step ((advance idleExecutor ^^ 6) (resetExecutionInformation (demoSession 8 8)))
     = DISPERSE_LOCAL"
proof -
  have h: "Total_Elements (demoSession 8 8) = 2 ^ 3" "Size_Limit (demoSession 8 8) = 2 ^ 3"
    "(2::nat) \<le> 3"
    by (simp_all add: demoSession_config)
  have t: "(4::nat) < 3 * (3 + 1) div 2" by simp
  from executed_spans [OF h, of idleExecutor] t h show ?thesis
    by (simp del: funpow.simps)
qed

subsection \<open>The transition after a step\<close>

text \<open>
  Claim C1, as the code has it. The sequencer halves 'Next Swap Span' first and then tests
  the halved value against 1, so a merge cycle ends after the step of span 2, not after a
  step of span 1. In a session with \<open>2 ^ n\<close> elements, a power-of-two size limit, the
  workgroup size \<open>min (N / 2) sizeLimit\<close> and block height \<open>2 ^ k\<close>, \<open>k \<le> n\<close>: after a step
  of span 2 executes, the block height is doubled; the next step is \<open>NONE\<close> with span 0 if
  the new block height is \<open>2 N\<close>, \<open>FLIP_GLOBAL\<close> with the new block height as span if that
  exceeds \<open>2 * sizeLimit\<close>, and \<open>FLIP_LOCAL\<close> with the new block height as span otherwise.
  For 8 elements and size limit 8, step 0 is \<open>FLIP_LOCAL\<close> with span 2, and its execution
  gives block height 4 and the next step \<open>FLIP_LOCAL\<close> with span 4.
\<close>

theorem cycle_end_transition:
  assumes "Total_Elements s = 2 ^ n" and "Size_Limit s = 2 ^ m" and "1 \<le> n"
    and "Workgroup_Size s = min (Total_Elements s / 2) (Size_Limit s)"
    and "highestBlockHeight s = 2 ^ k" and "k \<le> n"
    and "Next_Swap_Span s = 2"
  shows "highestBlockHeight (advance gpu s) = 2 * highestBlockHeight s \<and>
         (if highestBlockHeight (advance gpu s) = Total_Elements s * 2
          then Next_Step (advance gpu s) = NONE \<and> Next_Swap_Span (advance gpu s) = 0
          else if highestBlockHeight (advance gpu s) > Size_Limit s * 2
          then Next_Step (advance gpu s) = FLIP_GLOBAL \<and>
               Next_Swap_Span (advance gpu s) = highestBlockHeight (advance gpu s)
          else Next_Step (advance gpu s) = FLIP_LOCAL \<and>
               Next_Swap_Span (advance gpu s) = highestBlockHeight (advance gpu s)) \<and>
         (n = 3 \<and> m = 3 \<and> k = 1 \<longrightarrow>
            highestBlockHeight (advance gpu s) = 4 \<and> Next_Step (advance gpu s) = FLIP_LOCAL \<and>
            Next_Swap_Span (advance gpu s) = 4) \<and>
         Next_Step (resetExecutionInformation r) = FLIP_LOCAL \<and>
         Next_Swap_Span (resetExecutionInformation r) = 2"
proof -
  have ne: "(2::real) ^ k \<noteq> 2 ^ Suc n"
    using pow2_eq [of k "Suc n"] assms(6) by simp
  have run: "highestBlockHeight s \<noteq> Total_Elements s * 2"
    using ne by (simp add: assms(1,5))
  note step = advance_cycle_end [OF run assms(7), of gpu]
  have ws: "Workgroup_Size s = 2 ^ min (n - 1) m"
    by (simp only: assms(1,2,4) min_pow2 [OF assms(3)])
  have h2: "highestBlockHeight s * 2 = 2 ^ Suc k" by (simp add: assms(5))
  have t2: "Total_Elements s * 2 = 2 ^ Suc n" by (simp add: assms(1))
  have e: "(2::real) ^ Suc k = 2 ^ Suc n \<longleftrightarrow> k = n" by (simp only: pow2_eq nat.inject)
  have hb: "highestBlockHeight (advance gpu s) = 2 ^ Suc k"
    by (simp only: step h2)
  have A: "highestBlockHeight (advance gpu s) = 2 * highestBlockHeight s"
    by (simp add: hb assms(5))
  have B: "if highestBlockHeight (advance gpu s) = Total_Elements s * 2
          then Next_Step (advance gpu s) = NONE \<and> Next_Swap_Span (advance gpu s) = 0
          else if highestBlockHeight (advance gpu s) > Size_Limit s * 2
          then Next_Step (advance gpu s) = FLIP_GLOBAL \<and>
               Next_Swap_Span (advance gpu s) = highestBlockHeight (advance gpu s)
          else Next_Step (advance gpu s) = FLIP_LOCAL \<and>
               Next_Swap_Span (advance gpu s) = highestBlockHeight (advance gpu s)"
  proof (cases "k = n")
    case True
    then show ?thesis by (simp only: hb step h2 t2 e if_True simp_thms)
  next
    case False
    then have "k < n" using assms(6) by simp
    from local_or_global [OF this, of m]
    have "highestBlockHeight s * 2 > Workgroup_Size s * 2
        \<longleftrightarrow> highestBlockHeight (advance gpu s) > Size_Limit s * 2"
      by (simp only: h2 hb ws assms(2))
    then show ?thesis using False
      by (simp only: step(2,3) hb h2 t2 e if_False) simp
  qed
  have C: "highestBlockHeight (advance gpu s) = 4 \<and> Next_Step (advance gpu s) = FLIP_LOCAL \<and>
            Next_Swap_Span (advance gpu s) = 4" if "n = 3" "m = 3" "k = 1"
    using A B that by (simp add: assms(1,2,5))
  have D: "Next_Step (resetExecutionInformation r) = FLIP_LOCAL"
    "Next_Swap_Span (resetExecutionInformation r) = 2"
    by (simp_all add: reset_fields)
  from A B C D show ?thesis by blast
qed

theorem cycle_end_transition_witness:
  "Total_Elements (resetExecutionInformation (demoSession 8 8)) = 2 ^ 3 \<and>
   Size_Limit (resetExecutionInformation (demoSession 8 8)) = 2 ^ 3 \<and>
   highestBlockHeight (resetExecutionInformation (demoSession 8 8)) = 2 ^ 1 \<and>
   Next_Step (resetExecutionInformation (demoSession 8 8)) = FLIP_LOCAL \<and>
   Next_Swap_Span (resetExecutionInformation (demoSession 8 8)) = 2 \<and>
   highestBlockHeight (advance idleExecutor (resetExecutionInformation (demoSession 8 8))) = 4 \<and>
   Next_Step (advance idleExecutor (resetExecutionInformation (demoSession 8 8))) = FLIP_LOCAL \<and>
   Next_Swap_Span (advance idleExecutor (resetExecutionInformation (demoSession 8 8))) = 4"
proof -
  define s0 where "s0 = resetExecutionInformation (demoSession 8 8)"
  have h: "Total_Elements s0 = 2 ^ 3" "Size_Limit s0 = 2 ^ 3" "(1::nat) \<le> 3"
    "Workgroup_Size s0 = min (Total_Elements s0 / 2) (Size_Limit s0)"
    "highestBlockHeight s0 = 2 ^ 1" "(1::nat) \<le> 3" "Next_Swap_Span s0 = 2"
    by (simp_all add: s0_def reset_fields demoSession_config)
  have "Next_Step s0 = FLIP_LOCAL" by (simp add: s0_def reset_fields)
  with cycle_end_transition [OF h, where gpu = idleExecutor] h show ?thesis
    unfolding s0_def [symmetric] by simp
qed

text \<open>
  The claim as stated fails. With 8 elements and size limit 8, step 1 is \<open>FLIP_LOCAL\<close> with
  span 4, not \<open>DISPERSE_LOCAL\<close> with span 1; and were a step of span 1 executed, the block
  height would stay 2 and the next step would be \<open>DISPERSE_LOCAL\<close> with span 1/2.
\<close>

theorem cycle_end_counterexample:
  "Next_Step (advance idleExecutor (resetExecutionInformation (demoSession 8 8))) = FLIP_LOCAL \<and>
   Next_Step (advance idleExecutor (resetExecutionInformation (demoSession 8 8))) \<noteq> DISPERSE_LOCAL \<and>
   Next_Swap_Span (advance idleExecutor (resetExecutionInformation (demoSession 8 8))) = 4 \<and>
   highestBlockHeight (advance idleExecutor
      ((resetExecutionInformation (demoSession 8 8))\<lparr>Next_Swap_Span := 1\<rparr>)) = 2 \<and>
   Next_Step (advance idleExecutor
      ((resetExecutionInformation (demoSession 8 8))\<lparr>Next_Swap_Span := 1\<rparr>)) = DISPERSE_LOCAL \<and>
   Next_Swap_Span (advance idleExecutor
      ((resetExecutionInformation (demoSession 8 8))\<lparr>Next_Swap_Span := 1\<rparr>)) = 1 / 2"
proof -
  define s0 where "s0 = resetExecutionInformation (demoSession 8 8)"
  define s1 where "s1 = s0\<lparr>Next_Swap_Span := 1\<rparr>"
  have run0: "highestBlockHeight s0 \<noteq> Total_Elements s0 * 2" and sp0: "Next_Swap_Span s0 = 2"
    by (simp_all add: s0_def reset_fields demoSession_config)
  have run1: "highestBlockHeight s1 \<noteq> Total_Elements s1 * 2" and sp1: "Next_Swap_Span s1 \<noteq> 2"
    by (simp_all add: s1_def s0_def reset_fields demoSession_config)
  note a = advance_cycle_end [OF run0 sp0, of idleExecutor]
  note b = advance_disperse [OF run1 sp1, of idleExecutor]
  show ?thesis
    unfolding s0_def [symmetric] s1_def [symmetric] a b
    by (simp add: s1_def s0_def reset_fields demoSession_config)
qed

text \<open>
  Claim C4, as the code has it. After a step executes whose span \<open>s\<close> is not 2 (so that
  \<open>s / 2\<close> is not 1), with \<open>0 \<le> s \<le> N\<close> and the workgroup size \<open>min (N / 2) sizeLimit\<close>: the
  next span is \<open>s / 2\<close>, the next step is \<open>DISPERSE_GLOBAL\<close> if \<open>s / 2 > 2 * sizeLimit\<close> and
  \<open>DISPERSE_LOCAL\<close> otherwise, and the block height is unchanged.
\<close>

theorem disperse_transition:
  assumes "highestBlockHeight s \<noteq> Total_Elements s * 2"
    and "Next_Swap_Span s \<noteq> 2"
    and "Workgroup_Size s = min (Total_Elements s / 2) (Size_Limit s)"
    and "0 \<le> Next_Swap_Span s" and "Next_Swap_Span s \<le> Total_Elements s"
  shows "Next_Swap_Span (advance gpu s) = Next_Swap_Span s / 2 \<and>
         Next_Step (advance gpu s) =
           (if Next_Swap_Span s / 2 > Size_Limit s * 2 then DISPERSE_GLOBAL else DISPERSE_LOCAL) \<and>
         highestBlockHeight (advance gpu s) = highestBlockHeight s"
proof -
  note step = advance_disperse [OF assms(1,2), of gpu]
  have "Next_Swap_Span s / 2 > Workgroup_Size s * 2 \<longleftrightarrow> Next_Swap_Span s / 2 > Size_Limit s * 2"
    using assms(4,5) unfolding assms(3) by (auto simp: min_def)
  then show ?thesis by (simp only: step simp_thms)
qed

theorem disperse_transition_witness:
  "highestBlockHeight (advance idleExecutor (resetExecutionInformation (demoSession 8 8)))
     \<noteq> Total_Elements (advance idleExecutor (resetExecutionInformation (demoSession 8 8))) * 2 \<and>
   Next_Swap_Span (advance idleExecutor (resetExecutionInformation (demoSession 8 8))) = 4 \<and>
   Next_Swap_Span (advance idleExecutor
      (advance idleExecutor (resetExecutionInformation (demoSession 8 8)))) = 2 \<and>
   Next_Step (advance idleExecutor
      (advance idleExecutor (resetExecutionInformation (demoSession 8 8)))) = DISPERSE_LOCAL"
proof -
  define s0 where "s0 = resetExecutionInformation (demoSession 8 8)"
  define s1 where "s1 = advance idleExecutor s0"
  have run0: "highestBlockHeight s0 \<noteq> Total_Elements s0 * 2" and sp0: "Next_Swap_Span s0 = 2"
    by (simp_all add: s0_def reset_fields demoSession_config)
  note st = advance_cycle_end [OF run0 sp0, of idleExecutor]
  have cfg: "Total_Elements s1 = 8" "Size_Limit s1 = 8" "Workgroup_Size s1 = 4"
    by (simp_all add: s1_def s0_def advance_config reset_fields demoSession_config)
  have f: "highestBlockHeight s1 = 4" "Next_Swap_Span s1 = 4"
    unfolding s1_def st by (simp_all add: s0_def reset_fields demoSession_config)
  have h: "highestBlockHeight s1 \<noteq> Total_Elements s1 * 2" "Next_Swap_Span s1 \<noteq> 2"
    "Workgroup_Size s1 = min (Total_Elements s1 / 2) (Size_Limit s1)"
    "0 \<le> Next_Swap_Span s1" "Next_Swap_Span s1 \<le> Total_Elements s1"
    by (simp_all add: cfg f)
  from disperse_transition [OF h, of idleExecutor] h(1) show ?thesis
    by (simp add: cfg f s1_def [symmetric] s0_def [symmetric])
qed

text \<open>
  The claim as stated fails at \<open>s = 2\<close>, which is not 1: with 4 elements and size limit 2,
  step 0 has span 2 and the next step is \<open>FLIP_LOCAL\<close> with span 4, not a disperse step with
  span 1.
\<close>

theorem disperse_transition_counterexample:
  "highestBlockHeight (resetExecutionInformation (demoSession 4 2))
     \<noteq> Total_Elements (resetExecutionInformation (demoSession 4 2)) * 2 \<and>
   Next_Swap_Span (resetExecutionInformation (demoSession 4 2)) = 2 \<and>
   Next_Swap_Span (resetExecutionInformation (demoSession 4 2)) \<noteq> 1 \<and>
   Next_Swap_Span (advance idleExecutor (resetExecutionInformation (demoSession 4 2))) = 4 \<and>
   Next_Step (advance idleExecutor (resetExecutionInformation (demoSession 4 2))) = FLIP_LOCAL"
proof -
  define s0 where "s0 = resetExecutionInformation (demoSession 4 2)"
  have run0: "highestBlockHeight s0 \<noteq> Total_Elements s0 * 2" and sp0: "Next_Swap_Span s0 = 2"
    by (simp_all add: s0_def reset_fields demoSession_config)
  note st = advance_cycle_end [OF run0 sp0, of idleExecutor]
  show ?thesis
    unfolding s0_def [symmetric] st
    by (simp add: s0_def reset_fields demoSession_config)
qed

subsection \<open>Workgroups per step\<close>

text \<open>
  Claim C9. With a size limit other than 0 (every valid size limit is a power of two), the
  workgroup count dispatched by each step of a session is
  \<open>ceil ((totalElements - 1) / (sizeLimit * 2))\<close>: \<open>resetExecutionInformation\<close> sets it, no
  step changes it, and the handler of 'Size Limit' computes the same number. For 4 elements
  and size limit 2 it is 1.
\<close>

theorem workgroups_per_step:
  assumes "Size_Limit s \<noteq> 0"
  shows "Workgroups_Per_Step ((advance gpu ^^ t) (resetExecutionInformation s))
           = Some (of_int \<lceil>(Total_Elements s - 1) / (Size_Limit s * 2)\<rceil>) \<and>
         Workgroups_Per_Step (sizeLimitOnChange s)
           = Some (of_int \<lceil>(Total_Elements s - 1) / (Size_Limit s * 2)\<rceil>) \<and>
         (Total_Elements s = 4 \<and> Size_Limit s = 2 \<longrightarrow>
            Workgroups_Per_Step ((advance gpu ^^ t) (resetExecutionInformation s)) = Some 1)"
proof -
  have a: "Workgroups_Per_Step ((advance gpu ^^ t) (resetExecutionInformation s))
      = Some (of_int \<lceil>(Total_Elements s - 1) / (Size_Limit s * 2)\<rceil>)"
    using assms by (simp add: advance_pow_config reset_fields jsDivide_def jsCeil_def)
  have b: "Workgroups_Per_Step (sizeLimitOnChange s)
      = Some (of_int \<lceil>(Total_Elements s - 1) / (Size_Limit s * 2)\<rceil>)"
    using assms by (simp add: sizeLimitOnChange_def Let_def jsDivide_def jsCeil_def)
  have "\<lceil>(4 - 1) / (2 * 2 :: real)\<rceil> = 1" by (simp add: ceiling_eq_iff)
  then have c: "Workgroups_Per_Step ((advance gpu ^^ t) (resetExecutionInformation s)) = Some 1"
    if "Total_Elements s = 4" "Size_Limit s = 2"
    using a that by simp
  from a b c show ?thesis by blast
qed

theorem workgroups_per_step_witness:
  "Size_Limit (demoSession 4 2) \<noteq> 0 \<and>
   Workgroups_Per_Step ((advance idleExecutor ^^ 2) (resetExecutionInformation (demoSession 4 2)))
     = Some 1 \<and>
   Workgroups_Per_Step (sizeLimitOnChange (demoSession 4 2)) = Some 1 \<and>
   Workgroups_Per_Step ((advance idleExecutor ^^ 2) (resetExecutionInformation (demoSession 16 2)))
     = Some 4"
proof -
  have h: "Size_Limit (demoSession 4 2) \<noteq> 0" "Size_Limit (demoSession 16 2) \<noteq> 0"
    by (simp_all add: demoSession_config)
  have c: "\<lceil>(4 - 1) / (2 * 2 :: real)\<rceil> = 1" "\<lceil>(16 - 1) / (2 * 2 :: real)\<rceil> = 4"
    by (simp_all add: ceiling_eq_iff)
  from workgroups_per_step [OF h(1), where gpu = idleExecutor and t = 2]
    workgroups_per_step [OF h(2), where gpu = idleExecutor and t = 2] h c
  show ?thesis by (simp add: demoSession_config del: funpow.simps)
qed

subsection \<open>Advancing a finished sort\<close>

text \<open>
  Claim C7. In a session that started with a next step other than \<open>NONE\<close> (every session does:
  it starts with \<open>FLIP_LOCAL\<close>) and has reached the next step \<open>NONE\<close>, one more step leaves
  the whole state as it is: in particular the next step, the span, the step index, the block
  height and the element array. The model has no error value, and \<open>advance\<close> is total.
\<close>

theorem advance_after_NONE:
  assumes "Next_Step s \<noteq> NONE" and "Next_Step ((advance gpu ^^ t) s) = NONE"
  shows "advance gpu ((advance gpu ^^ t) s) = (advance gpu ^^ t) s \<and>
         Next_Step (advance gpu ((advance gpu ^^ t) s)) = NONE \<and>
         Next_Swap_Span (advance gpu ((advance gpu ^^ t) s)) = Next_Swap_Span ((advance gpu ^^ t) s) \<and>
         Step_Index (advance gpu ((advance gpu ^^ t) s)) = Step_Index ((advance gpu ^^ t) s) \<and>
         highestBlockHeight (advance gpu ((advance gpu ^^ t) s))
           = highestBlockHeight ((advance gpu ^^ t) s) \<and>
         elements (advance gpu ((advance gpu ^^ t) s)) = elements ((advance gpu ^^ t) s)"
proof -
  from assms obtain u where t: "t = Suc u" by (cases t) simp_all
  have "highestBlockHeight ((advance gpu ^^ t) s) = Total_Elements ((advance gpu ^^ t) s) * 2"
    using advance_pow_NONE [OF assms(1), where gpu = gpu and t = t] assms(2) by simp
  then have "highestBlockHeight (advance gpu ((advance gpu ^^ u) s))
      = Total_Elements (advance gpu ((advance gpu ^^ u) s)) * 2"
    by (simp add: t)
  from advance_twice_idle [OF this]
  have "advance gpu ((advance gpu ^^ t) s) = (advance gpu ^^ t) s" by (simp add: t)
  then show ?thesis using assms(2) by simp
qed

theorem advance_after_NONE_witness:
  "Next_Step (resetExecutionInformation (demoSession 4 2)) \<noteq> NONE \<and>
   Next_Step ((advance idleExecutor ^^ 3) (resetExecutionInformation (demoSession 4 2))) = NONE \<and>
   advance idleExecutor ((advance idleExecutor ^^ 3) (resetExecutionInformation (demoSession 4 2)))
     = (advance idleExecutor ^^ 3) (resetExecutionInformation (demoSession 4 2))"
proof -
  have h: "Total_Elements (demoSession 4 2) = 2 ^ 2" "Size_Limit (demoSession 4 2) = 2 ^ 1"
    "(1::nat) \<le> 2"
    by (simp_all add: demoSession_config)
  from run_summary [OF h, where gpu = idleExecutor and t = 3]
  have b: "Next_Step ((advance idleExecutor ^^ 3) (resetExecutionInformation (demoSession 4 2)))
      = NONE"
    by (simp del: funpow.simps)
  have a: "Next_Step (resetExecutionInformation (demoSession 4 2)) \<noteq> NONE"
    by (simp add: reset_fields)
  from advance_after_NONE [OF a b] a b show ?thesis by blast
qed

subsection \<open>Creating a session\<close>

text \<open>
  Claim C6, as the code has it. Nothing is rejected when a session is created: there is no
  configuration error. The GUI offers the element counts and the size limits of two lists
  built by halving, which hold powers of two only (at least 4, at least 2) when the device
  limit is a power of two; and for any element count \<open>x\<close> and size limit \<open>l\<close>, also with
  \<open>l > x / 2\<close>, selecting them gives a session at step 0 with next step \<open>FLIP_LOCAL\<close>, span 2,
  block height 2 and the workgroup size clamped to \<open>min (x / 2) l\<close>.
\<close>

theorem session_creation:
  "(\<forall>x \<in> set (totalElementOptions (2 ^ p * 32)). \<exists>n. 2 \<le> n \<and> x = 2 ^ n) \<and>
   (\<forall>l \<in> set (sizeLimitOptions (2 ^ p)). \<exists>m. 1 \<le> m \<and> l = 2 ^ m) \<and>
   Total_Elements (selectTotalElements rnd x (selectSizeLimit l s)) = x \<and>
   Size_Limit (selectTotalElements rnd x (selectSizeLimit l s)) = l \<and>
   Workgroup_Size (selectTotalElements rnd x (selectSizeLimit l s)) = min (x / 2) l \<and>
   Step_Index (selectTotalElements rnd x (selectSizeLimit l s)) = 0 \<and>
   Next_Step (selectTotalElements rnd x (selectSizeLimit l s)) = FLIP_LOCAL \<and>
   Next_Swap_Span (selectTotalElements rnd x (selectSizeLimit l s)) = 2 \<and>
   highestBlockHeight (selectTotalElements rnd x (selectSizeLimit l s)) = 2"
proof -
  have "(2::real) ^ p * 32 = 2 ^ (p + 5)" by (simp add: power_add)
  then have a: "\<forall>x \<in> set (totalElementOptions (2 ^ p * 32)). \<exists>n. 2 \<le> n \<and> x = 2 ^ n"
    using totalElementOptions_pow2 [of _ "p + 5"] by simp
  have b: "\<forall>l \<in> set (sizeLimitOptions (2 ^ p)). \<exists>m. 1 \<le> m \<and> l = 2 ^ m"
    using sizeLimitOptions_pow2 [of _ p] by blast
  have c: "Total_Elements (selectTotalElements rnd x (selectSizeLimit l s)) = x"
    "Size_Limit (selectTotalElements rnd x (selectSizeLimit l s)) = l"
    "Workgroup_Size (selectTotalElements rnd x (selectSizeLimit l s)) = min (x / 2) l"
    "Step_Index (selectTotalElements rnd x (selectSizeLimit l s)) = 0"
    "Next_Step (selectTotalElements rnd x (selectSizeLimit l s)) = FLIP_LOCAL"
    "Next_Swap_Span (selectTotalElements rnd x (selectSizeLimit l s)) = 2"
    "highestBlockHeight (selectTotalElements rnd x (selectSizeLimit l s)) = 2"
    by (simp_all add: selectTotalElements_def resize_fields selectSizeLimit_fields)
  from a b c show ?thesis by blast
qed

theorem session_creation_witness:
  "(4::real) \<in> set (totalElementOptions (2 ^ 3 * 32)) \<and> (\<exists>n. 2 \<le> n \<and> (4::real) = 2 ^ n) \<and>
   (8::real) \<in> set (sizeLimitOptions (2 ^ 3)) \<and> (\<exists>m. 1 \<le> m \<and> (8::real) = 2 ^ m) \<and>
   Workgroup_Size (selectTotalElements noRandom 4 (selectSizeLimit 8 (initialSession noRandom 8))) = 2"
proof -
  have m: "(4::real) \<in> set (totalElementOptions (2 ^ 3 * 32))"
    "(8::real) \<in> set (sizeLimitOptions (2 ^ 3))"
    using options_8 by simp_all
  note sc = session_creation [of 3 noRandom 4 8 "initialSession noRandom 8"]
  from sc m(1) have a: "\<exists>n. 2 \<le> n \<and> (4::real) = 2 ^ n" by blast
  from sc m(2) have b: "\<exists>m. 1 \<le> m \<and> (8::real) = 2 ^ m" by blast
  from sc have "Workgroup_Size
      (selectTotalElements noRandom 4 (selectSizeLimit 8 (initialSession noRandom 8)))
      = min (4 / 2) 8" by blast
  then have c: "Workgroup_Size
      (selectTotalElements noRandom 4 (selectSizeLimit 8 (initialSession noRandom 8))) = 2"
    by simp
  from m a b c show ?thesis by blast
qed

text \<open>
  The claim as stated fails: 4 elements and size limit 8 can both be selected on a device
  with limit 8, the size limit exceeds half the element count, and the session is created
  (with workgroup size 2) and sorts to the end in 3 steps.
\<close>

theorem session_creation_counterexample:
  "(4::real) \<in> set (totalElementOptions (8 * 32)) \<and> (8::real) \<in> set (sizeLimitOptions 8) \<and>
   (8::real) > 4 / 2 \<and>
   Total_Elements (demoSession 4 8) = 4 \<and> Size_Limit (demoSession 4 8) = 8 \<and>
   Workgroup_Size (demoSession 4 8) = 2 \<and> Next_Step (demoSession 4 8) = FLIP_LOCAL \<and>
   Next_Step ((advance idleExecutor ^^ 3) (demoSession 4 8)) = NONE"
proof -
  have r: "resetExecutionInformation (demoSession 4 8) = demoSession 4 8"
    by (simp add: demoSession_def selectTotalElements_def reset_resize)
  have h: "Total_Elements (demoSession 4 8) = 2 ^ 2" "Size_Limit (demoSession 4 8) = 2 ^ 3"
    "(1::nat) \<le> 2"
    by (simp_all add: demoSession_config)
  from run_summary [OF h, where gpu = idleExecutor and t = 3]
  have "Next_Step ((advance idleExecutor ^^ 3) (demoSession 4 8)) = NONE"
    by (simp add: r del: funpow.simps)
  moreover have "Workgroup_Size (demoSession 4 8) = 2" "Next_Step (demoSession 4 8) = FLIP_LOCAL"
    by (simp_all add: demoSession_def selectTotalElements_def resize_fields selectSizeLimit_fields)
  moreover have "(4::real) \<in> set (totalElementOptions (8 * 32))"
    "(8::real) \<in> set (sizeLimitOptions 8)"
    using options_8 by simp_all
  ultimately show ?thesis by (simp add: demoSession_config)
qed

subsection \<open>The disperse rule\<close>

text \<open>
  For \<open>DISPERSE_LOCAL\<close> the predictor pairs the lower and the upper half of each block.
\<close>

lemma disperse_local_partner:
  "swappedIndex DISPERSE_LOCAL (2 ^ k) (real i)
     = Some (if real (i mod 2 ^ k) < 2 ^ k / 2 then real i + 2 ^ k / 2 else real i - 2 ^ k / 2)"
proof -
  have pos: "0 < (2::nat) ^ k" by simp
  from dispersePartner_nat [OF pos, of i] show ?thesis
    by (simp only: of_nat_two_power swappedIndex.simps)
qed

text \<open>
  Claim C2 at the input where the code departs from it. \<open>setSwappedCell\<close> has no case for
  \<open>DISPERSE_GLOBAL\<close>. With 16 elements and size limit 2 the eighth step is \<open>DISPERSE_GLOBAL\<close>
  with span 8; for the hovered cell 1 the code then shows the swapped cell 1, where the rule
  of the claim, which the code follows for \<open>DISPERSE_LOCAL\<close>, gives 5.
\<close>

theorem disperse_global_unpaired:
  "Next_Step ((advance idleExecutor ^^ 7)
      (resetExecutionInformation ((demoSession 16 2)\<lparr>Hovered_Cell := 1\<rparr>))) = DISPERSE_GLOBAL \<and>
   Next_Swap_Span ((advance idleExecutor ^^ 7)
      (resetExecutionInformation ((demoSession 16 2)\<lparr>Hovered_Cell := 1\<rparr>))) = 8 \<and>
   Swapped_Cell ((advance idleExecutor ^^ 7)
      (resetExecutionInformation ((demoSession 16 2)\<lparr>Hovered_Cell := 1\<rparr>))) = Some 1 \<and>
   swappedIndex DISPERSE_LOCAL 8 1 = Some 5"
proof -
  define g where "g = idleExecutor"
  define s0 where "s0 = resetExecutionInformation ((demoSession 16 2)\<lparr>Hovered_Cell := 1\<rparr>)"
  define s1 where "s1 = advance g s0"
  define s2 where "s2 = advance g s1"
  define s3 where "s3 = advance g s2"
  define s4 where "s4 = advance g s3"
  define s5 where "s5 = advance g s4"
  define s6 where "s6 = advance g s5"
  define s7 where "s7 = advance g s6"
  have run: "(advance g ^^ 7) s0 = s7"
    by (simp add: eval_nat_numeral s1_def s2_def s3_def s4_def s5_def s6_def s7_def)
  have "inCycle 4 (min (4 - 1) 1) 1 1 s0"
    unfolding s0_def by (rule reset_inCycle) (simp_all add: demoSession_config)
  then have c0: "inCycle 4 1 1 (Suc 0) s0" by simp
  from cycle_end [OF c0, of g] have c1: "inCycle 4 1 2 (Suc (Suc 0)) s1"
    by (simp add: s1_def numeral_2_eq_2)
  from cycle_disperse [OF c1, of g] have c2: "inCycle 4 1 2 (Suc 0) s2"
    by (simp add: s2_def)
  from cycle_end [OF c2, of g] have c3: "inCycle 4 1 3 (Suc (Suc (Suc 0))) s3"
    by (simp add: s3_def numeral_3_eq_3)
  from cycle_disperse [OF c3, of g] have c4: "inCycle 4 1 3 (Suc (Suc 0)) s4"
    by (simp add: s4_def)
  from cycle_disperse [OF c4, of g] have c5: "inCycle 4 1 3 (Suc 0) s5"
    by (simp add: s5_def)
  from cycle_end [OF c5, of g] have c6: "inCycle 4 1 4 (Suc (Suc (Suc (Suc 0)))) s6"
    by (simp add: s6_def eval_nat_numeral)
  from cycle_disperse [OF c6, of g] have c7: "inCycle 4 1 4 (Suc (Suc (Suc 0))) s7"
    by (simp add: s7_def)
  have a: "Next_Step s7 = DISPERSE_GLOBAL" and b: "Next_Swap_Span s7 = 8"
    using c7 by (simp_all add: inCycle_def stepClass_def)
  have h: "Hovered_Cell s6 = 1"
    by (simp add: s6_def s5_def s4_def s3_def s2_def s1_def s0_def advance_hover reset_hover)
  have c: "Swapped_Cell s7 = Some 1"
    using a b h by (simp add: s7_def advance_hover)
  have d: "swappedIndex DISPERSE_LOCAL 8 1 = Some 5"
    by (simp add: dispersePartner_def jsRemainder_def jsTrunc_def)
  from a b c d show ?thesis unfolding run [symmetric] g_def s0_def by simp
qed

end
